theory Spec2Isabelle
  imports Main
begin

section \<open>Paths\<close>

text \<open>
  The plugin calls \<open>join\<close> and \<open>dirname\<close> of Node's \<open>path\<close> module. They are modelled
  here in their POSIX variant. A JavaScript string is modelled as a \<open>string\<close> holding its
  UTF-8 bytes, so that \<open>Buffer.byteLength\<close> is \<open>length\<close>.
\<close>

text \<open>\<open>String.prototype.split\<close> with a one-character separator.\<close>

fun splitOn :: "char \<Rightarrow> string \<Rightarrow> string list" where
  "splitOn sep [] = [[]]"
| "splitOn sep (c # cs) =
     (if c = sep then [] # splitOn sep cs
      else (case splitOn sep cs of [] \<Rightarrow> [[c]] | s # ss \<Rightarrow> (c # s) # ss))"

text \<open>\<open>Array.prototype.join\<close> with a one-character separator.\<close>

fun joinWith :: "char \<Rightarrow> string list \<Rightarrow> string" where
  "joinWith sep [] = []"
| "joinWith sep [s] = s"
| "joinWith sep (s # t # ss) = s @ sep # joinWith sep (t # ss)"

text \<open>
  Node's \<open>normalizeString\<close>, on the list of segments between separators: empty segments
  and \<open>.\<close> are dropped, \<open>..\<close> removes the segment before it, and a \<open>..\<close> with nothing to
  remove is kept only when \<open>allowAboveRoot\<close> holds. The accumulator is the result so far,
  last segment first.
\<close>

fun normalizeSegments :: "bool \<Rightarrow> string list \<Rightarrow> string list \<Rightarrow> string list" where
  "normalizeSegments allowAboveRoot acc [] = rev acc"
| "normalizeSegments allowAboveRoot acc (s # ss) =
     (if s = [] \<or> s = ''.'' then normalizeSegments allowAboveRoot acc ss
      else if s = ''..'' then
        (case acc of
           [] \<Rightarrow> normalizeSegments allowAboveRoot (if allowAboveRoot then [''..''] else []) ss
         | t # acc' \<Rightarrow>
             if t \<noteq> ''..'' then normalizeSegments allowAboveRoot acc' ss
             else normalizeSegments allowAboveRoot
                    (if allowAboveRoot then ''..'' # acc else acc) ss)
      else normalizeSegments allowAboveRoot (s # acc) ss)"

definition isAbsolute :: "string \<Rightarrow> bool" where
  "isAbsolute path = (case path of [] \<Rightarrow> False | c # _ \<Rightarrow> c = CHR ''/'')"

text \<open>\<open>path.posix.normalize\<close>.\<close>

definition posixNormalize :: "string \<Rightarrow> string" where
  "posixNormalize path =
     (if path = [] then ''.''
      else
        let isAbs = isAbsolute path;
            trailingSeparator = (last path = CHR ''/'');
            p = joinWith (CHR ''/'') (normalizeSegments (\<not> isAbs) [] (splitOn (CHR ''/'') path))
        in if p = [] then (if isAbs then ''/'' else if trailingSeparator then ''./'' else ''.'')
           else (if isAbs then ''/'' else []) @ p @ (if trailingSeparator then ''/'' else []))"

text \<open>\<open>path.posix.join\<close> of two arguments: the non-empty ones are glued with a slash and
  the result is normalized.\<close>

definition join :: "string \<Rightarrow> string \<Rightarrow> string" where
  "join a b =
     (if a = [] \<and> b = [] then ''.''
      else posixNormalize (if a = [] then b else if b = [] then a else a @ ''/'' @ b))"

text \<open>
  \<open>path.posix.dirname\<close>: scanning from the end down to index 1, trailing slashes and then
  the last component are skipped; the result is what stands before the slash found.
\<close>

definition dirname :: "string \<Rightarrow> string" where
  "dirname path =
     (case path of
        [] \<Rightarrow> ''.''
      | c # body \<Rightarrow>
          (let rest = dropWhile (\<lambda>x. x \<noteq> CHR ''/'') (dropWhile (\<lambda>x. x = CHR ''/'') (rev body))
           in if rest = [] then (if c = CHR ''/'' then ''/'' else ''.'')
              else if c = CHR ''/'' \<and> length rest = 1 then ''//''
              else c # rev (tl rest)))"


section \<open>The module mapping\<close>

datatype moduleFormat = Esm | Cjs | Unknown

record input =
  bytes :: nat
  format :: moduleFormat
  "imports" :: "string list"
  belongsTo :: "string option"

text \<open>\<open>JsonReport['inputs']\<close>: an object used as a dictionary from keys to entries.\<close>

type_synonym inputs = "string \<rightharpoonup> input"

text \<open>
  \<open>sourcesGraph\<close> is a JavaScript \<open>Map\<close>: \<open>forEach\<close> visits the keys in insertion order,
  and \<open>set\<close> on a key already present replaces its value where it stands.
\<close>

type_synonym sourcesGraph = "(string \<times> string list) list"

fun mapSet :: "string \<Rightarrow> string list \<Rightarrow> sourcesGraph \<Rightarrow> sourcesGraph" where
  "mapSet k v [] = [(k, v)]"
| "mapSet k v ((k', v') # g) = (if k' = k then (k, v) # g else (k', v') # mapSet k v g)"

datatype error = MissingOutputError | TypeError


section \<open>Attribution of source-map sources\<close>

text \<open>
  The loops of \<open>generateReportFromAssets\<close>. \<open>normalizePath\<close> comes from \<open>./utils.js\<close>,
  which is outside the files at hand, so it is the parameter \<open>nrm\<close>. The inner loop
  stores a fresh entry for every source; \<open>parent\<close> was read before the loop started.
\<close>

fun attributeSources ::
  "(string \<Rightarrow> string) \<Rightarrow> string \<Rightarrow> input \<Rightarrow> string list \<Rightarrow> inputs \<Rightarrow> inputs" where
  "attributeSources nrm path parent [] inputs = inputs"
| "attributeSources nrm path parent (source # rest) inputs =
     attributeSources nrm path parent rest
       (inputs(nrm (join (dirname path) source) \<mapsto>
          \<lparr>bytes = 0, format = format parent, imports = [], belongsTo = Some path\<rparr>))"

text \<open>
  The outer loop. When \<open>inputs[path]\<close> is undefined, reading \<open>parent.format\<close> for the
  first source throws a \<open>TypeError\<close>; the mapping keeps what earlier iterations stored.
\<close>

fun attribute ::
  "(string \<Rightarrow> string) \<Rightarrow> sourcesGraph \<Rightarrow> inputs \<Rightarrow> error option \<times> inputs" where
  "attribute nrm [] inputs = (None, inputs)"
| "attribute nrm ((path, sources) # rest) inputs =
     (case inputs path of
        None \<Rightarrow> if sources = [] then attribute nrm rest inputs else (Some TypeError, inputs)
      | Some parent \<Rightarrow> attribute nrm rest (attributeSources nrm path parent sources inputs))"



section \<open>The adapters\<close>

subsection \<open>Webpack: \<open>optimizeModules\<close>\<close>

text \<open>
  One module of the \<open>optimizeModules\<close> hook. \<open>dependencies\<close> holds, for every dependency,
  the \<open>resource\<close> of the module it resolves to, or \<open>None\<close> where that is undefined; the
  undefined ones are filtered out. The existing entry is looked up under the resource as it
  is, a new entry is stored under the normalized resource.
\<close>

record normalModule =
  dependencies :: "string option list"
  resource :: string
  moduleType :: string

definition optimizeModule :: "(string \<Rightarrow> string) \<Rightarrow> normalModule \<Rightarrow> inputs \<Rightarrow> inputs" where
  "optimizeModule nrm md inputs =
     (let resolvedDependencies = concat (map (\<lambda>d. case d of None \<Rightarrow> [] | Some r \<Rightarrow> [r]) (dependencies md))
      in case inputs (resource md) of
           Some existingInput \<Rightarrow>
             inputs(resource md \<mapsto>
               existingInput\<lparr>format := (if moduleType md = ''javascript/esm'' then Esm else Cjs),
                              imports := resolvedDependencies\<rparr>)
         | None \<Rightarrow>
             inputs(nrm (resource md) \<mapsto>
               \<lparr>bytes = 0,
                format = (if moduleType md = ''javascript/esm'' then Esm else Cjs),
                imports = map nrm resolvedDependencies,
                belongsTo = None\<rparr>))"

fun optimizeModules :: "(string \<Rightarrow> string) \<Rightarrow> normalModule list \<Rightarrow> inputs \<Rightarrow> inputs" where
  "optimizeModules nrm [] inputs = inputs"
| "optimizeModules nrm (md # mds) inputs = optimizeModules nrm mds (optimizeModule nrm md inputs)"

subsection \<open>Rollup and Vite: \<open>moduleParsed\<close>\<close>

definition endsWith :: "string \<Rightarrow> string \<Rightarrow> bool" where
  "endsWith s ending = (length ending \<le> length s \<and> drop (length s - length ending) s = ending)"

text \<open>The tests of \<open>/\.m[tj]sx?$/\<close> and \<open>/\.c[tj]sx?$/\<close>: the four endings each accepts.\<close>

definition esmRegex :: "string \<Rightarrow> bool" where
  "esmRegex file =
     (endsWith file ''.mts'' \<or> endsWith file ''.mjs'' \<or> endsWith file ''.mtsx'' \<or> endsWith file ''.mjsx'')"

definition cjsRegex :: "string \<Rightarrow> bool" where
  "cjsRegex file =
     (endsWith file ''.cts'' \<or> endsWith file ''.cjs'' \<or> endsWith file ''.ctsx'' \<or> endsWith file ''.cjsx'')"

definition guessFormat :: "string \<Rightarrow> moduleFormat option" where
  "guessFormat file = (if esmRegex file then Some Esm else if cjsRegex file then Some Cjs else None)"

text \<open>The \<open>formats\<close> map and its \<open>get\<close>; \<open>None\<close> is \<open>undefined\<close>.\<close>

definition formats :: "bool option \<Rightarrow> moduleFormat option" where
  "formats flag = (case flag of Some True \<Rightarrow> Some Cjs | Some False \<Rightarrow> Some Esm | None \<Rightarrow> None)"

text \<open>
  Rollup's \<open>ModuleInfo\<close>, as far as the handler reads it: \<open>code\<close> is \<open>None\<close> for \<open>null\<close>,
  \<open>isCommonJS\<close> is \<open>module.meta.commonjs?.isCommonJS\<close>.
\<close>

record moduleInfo =
  id' :: string
  code :: "string option"
  isCommonJS :: "bool option"
  importedIds :: "string list"

definition moduleParsed :: "(string \<Rightarrow> string) \<Rightarrow> moduleInfo \<Rightarrow> inputs \<Rightarrow> inputs" where
  "moduleParsed nrm info inputs =
     (let key = nrm (id' info);
          input = (case inputs key of
                     Some e \<Rightarrow> e
                   | None \<Rightarrow> \<lparr>bytes = 0, format = Unknown, imports = [], belongsTo = None\<rparr>)
      in inputs(key \<mapsto>
           input\<lparr>bytes := (case code info of
                              None \<Rightarrow> 0
                            | Some c \<Rightarrow> if c = [] then 0 else length c),
                  format := (case formats (isCommonJS info) of
                               Some f \<Rightarrow> f
                             | None \<Rightarrow> (case guessFormat (id' info) of Some f \<Rightarrow> f | None \<Rightarrow> Unknown)),
                  imports := map nrm (importedIds info)\<rparr>))"


section \<open>The plugin\<close>

text \<open>
  The variables the hooks of \<open>factory\<close> share. \<open>outputDir\<close> and \<open>assets\<close> are undefined
  (\<open>None\<close>) until a hook assigns them.
\<close>

record pluginState =
  outputDir :: "string option"
  assets :: "string list option"
  inputs :: inputs
  sourcesGraph :: sourcesGraph

definition initialState :: pluginState where
  "initialState = \<lparr>outputDir = None, assets = None, inputs = Map.empty, sourcesGraph = []\<rparr>"

text \<open>What the plugin leaves outside itself: the files written and the paths opened.\<close>

record world =
  files :: "string \<rightharpoonup> string"
  opened :: "string list"

text \<open>
  \<open>load\<close>. The sources of the module's source map (\<open>result?.map?.sources\<close>, read by
  \<open>loadCodeAndMap\<close>) are an argument: \<open>None\<close> when there are none.
\<close>

definition load :: "(string \<Rightarrow> string) \<Rightarrow> string \<Rightarrow> string list option \<Rightarrow> pluginState \<Rightarrow> pluginState" where
  "load nrm ident mapSources st =
     (let relativePath = nrm ident;
          st' = st\<lparr>inputs := (inputs st)(relativePath \<mapsto>
                  \<lparr>bytes = 0, format = Unknown, imports = [], belongsTo = None\<rparr>)\<rparr>
      in case mapSources of
           None \<Rightarrow> st'
         | Some sources \<Rightarrow> st'\<lparr>sourcesGraph := mapSet relativePath sources (sourcesGraph st')\<rparr>)"

text \<open>
  \<open>generateReportFromAssets\<close>. \<open>generateHtmlReport\<close> comes from \<open>./report.js\<close> and is a
  parameter; a falsy report (\<open>None\<close> or the empty string) ends the function before
  anything is written. \<open>join\<close> throws a \<open>TypeError\<close> on an undefined \<open>outputDir\<close>.
\<close>

definition generateReportFromAssets ::
  "(string \<Rightarrow> string) \<Rightarrow> (string list \<Rightarrow> inputs \<Rightarrow> string option) \<Rightarrow>
   string list \<Rightarrow> string option \<Rightarrow> bool \<Rightarrow> pluginState \<Rightarrow> world \<Rightarrow>
   error option \<times> pluginState \<times> world" where
  "generateReportFromAssets nrm generateHtmlReport assetList dir shouldOpen st w =
     (case attribute nrm (sourcesGraph st) (inputs st) of
        (Some e, m) \<Rightarrow> (Some e, st\<lparr>inputs := m\<rparr>, w)
      | (None, m) \<Rightarrow>
          (case generateHtmlReport assetList m of
             None \<Rightarrow> (None, st\<lparr>inputs := m\<rparr>, w)
           | Some report \<Rightarrow>
               if report = [] then (None, st\<lparr>inputs := m\<rparr>, w)
               else (case dir of
                       None \<Rightarrow> (Some TypeError, st\<lparr>inputs := m\<rparr>, w)
                     | Some d \<Rightarrow>
                         let path = join d ''sonar-report.html''
                         in (None, st\<lparr>inputs := m\<rparr>,
                             w\<lparr>files := (files w)(path \<mapsto> report),
                               opened := (if shouldOpen then opened w @ [path] else opened w)\<rparr>))))"

text \<open>
  \<open>resolve(process.cwd(), p)\<close> of Node's \<open>path\<close>, for an absolute working directory
  \<open>cwd\<close>.
\<close>

definition resolve :: "string \<Rightarrow> string \<Rightarrow> string" where
  "resolve cwd p =
     CHR ''/'' # joinWith (CHR ''/'')
       (normalizeSegments False [] (splitOn (CHR ''/'') (if isAbsolute p then p else cwd @ ''/'' @ p)))"

text \<open>Rollup's \<open>NormalizedOutputOptions\<close>, as far as \<open>writeBundle\<close> reads it.\<close>

record outputOptions =
  dir :: "string option"
  "file" :: "string option"

text \<open>
  \<open>writeBundle\<close>. Rollup and Vite call it with the options and the bundle (of which only
  the file names are read); other bundlers call it with no argument. \<open>dirname\<close> throws a
  \<open>TypeError\<close> when both \<open>dir\<close> and \<open>file\<close> are undefined.
\<close>

definition writeBundle ::
  "(string \<Rightarrow> string) \<Rightarrow> string \<Rightarrow> (string list \<Rightarrow> inputs \<Rightarrow> string option) \<Rightarrow> bool \<Rightarrow>
   (outputOptions \<times> string list) option \<Rightarrow> pluginState \<Rightarrow> world \<Rightarrow>
   error option \<times> pluginState \<times> world" where
  "writeBundle nrm cwd generateHtmlReport shouldOpen args st w =
     (case args of
        None \<Rightarrow>
          (case assets st of
             None \<Rightarrow> (Some MissingOutputError, st, w)
           | Some assetList \<Rightarrow>
               generateReportFromAssets nrm generateHtmlReport assetList (outputDir st) shouldOpen st w)
      | Some (options, bundle) \<Rightarrow>
          (case (case dir options of Some d \<Rightarrow> Some d | None \<Rightarrow> map_option dirname (file options)) of
             None \<Rightarrow> (Some TypeError, st, w)
           | Some d \<Rightarrow>
               let out = resolve cwd d;
                   assetList = map (join out) bundle;
                   st' = st\<lparr>outputDir := Some out, assets := Some assetList\<rparr>
               in generateReportFromAssets nrm generateHtmlReport assetList (Some out) shouldOpen st' w))"

text \<open>Webpack's \<open>afterEmit\<close>: the output path (or the working directory) and the asset names.\<close>

definition afterEmit :: "string \<Rightarrow> string option \<Rightarrow> string list \<Rightarrow> pluginState \<Rightarrow> pluginState" where
  "afterEmit cwd outputPath assetNames st =
     (let out = (case outputPath of Some p \<Rightarrow> p | None \<Rightarrow> cwd)
      in st\<lparr>outputDir := Some out, assets := Some (map (join out) assetNames)\<rparr>)"

text \<open>
  The hooks a bundler may call, and the plugin run over a sequence of them. A hook that
  throws leaves the shared variables as they stood at the throw.
\<close>

datatype event =
    Load string "string list option"
  | AfterEmit "string option" "string list"
  | OptimizeModules "normalModule list"
  | ModuleParsed moduleInfo
  | WriteBundle "(outputOptions \<times> string list) option"

fun step ::
  "(string \<Rightarrow> string) \<Rightarrow> string \<Rightarrow> (string list \<Rightarrow> inputs \<Rightarrow> string option) \<Rightarrow> bool \<Rightarrow>
   event \<Rightarrow> pluginState \<Rightarrow> world \<Rightarrow> error option \<times> pluginState \<times> world" where
  "step nrm cwd gen shouldOpen (Load ident mapSources) st w = (None, load nrm ident mapSources st, w)"
| "step nrm cwd gen shouldOpen (AfterEmit outputPath assetNames) st w =
     (None, afterEmit cwd outputPath assetNames st, w)"
| "step nrm cwd gen shouldOpen (OptimizeModules mds) st w =
     (None, st\<lparr>inputs := optimizeModules nrm mds (inputs st)\<rparr>, w)"
| "step nrm cwd gen shouldOpen (ModuleParsed info) st w =
     (None, st\<lparr>inputs := moduleParsed nrm info (inputs st)\<rparr>, w)"
| "step nrm cwd gen shouldOpen (WriteBundle args) st w = writeBundle nrm cwd gen shouldOpen args st w"

fun run ::
  "(string \<Rightarrow> string) \<Rightarrow> string \<Rightarrow> (string list \<Rightarrow> inputs \<Rightarrow> string option) \<Rightarrow> bool \<Rightarrow>
   event list \<Rightarrow> pluginState \<Rightarrow> world \<Rightarrow> pluginState \<times> world" where
  "run nrm cwd gen shouldOpen [] st w = (st, w)"
| "run nrm cwd gen shouldOpen (e # es) st w =
     (case step nrm cwd gen shouldOpen e st w of (_, st', w') \<Rightarrow> run nrm cwd gen shouldOpen es st' w')"


text \<open>The hooks that assign \<open>assets\<close>.\<close>

fun recordsAssets :: "event \<Rightarrow> bool" where
  "recordsAssets (AfterEmit outputPath assetNames) = True"
| "recordsAssets (WriteBundle (Some args)) = True"
| "recordsAssets e = False"


section \<open>Predicates on the mapping\<close>

text \<open>The keys that attribution computes for the sources of a source-map graph.\<close>

definition childKeys :: "(string \<Rightarrow> string) \<Rightarrow> sourcesGraph \<Rightarrow> string set" where
  "childKeys nrm g =
     {nrm (join (dirname path) s) | path sources s. (path, sources) \<in> set g \<and> s \<in> set sources}"

text \<open>Every \<open>belongsTo\<close> names a key of the mapping.\<close>

definition belongsToClosed :: "inputs \<Rightarrow> bool" where
  "belongsToClosed m = (\<forall>k e p. m k = Some e \<longrightarrow> belongsTo e = Some p \<longrightarrow> m p \<noteq> None)"

text \<open>No entry names its own key as \<open>belongsTo\<close>.\<close>

definition noSelfReference :: "inputs \<Rightarrow> bool" where
  "noSelfReference m = (\<forall>k e. m k = Some e \<longrightarrow> belongsTo e \<noteq> Some k)"


text \<open>Every compiled module of the source-map graph has an entry.\<close>

definition graphKeysPresent :: "pluginState \<Rightarrow> bool" where
  "graphKeysPresent st = (fst ` set (sourcesGraph st) \<subseteq> dom (inputs st))"


section \<open>Path normalization\<close>

text \<open>
  Modelled from the spec: the separator normalization of \<open>normalizePath\<close> (\<open>./utils.js\<close> is
  not among the source files). Keys are independent of the platform's separator, so a
  backslash counts as a slash.
\<close>

definition toPosix :: "string \<Rightarrow> string" where
  "toPosix p = map (\<lambda>c. if c = CHR 0x5C then CHR ''/'' else c) p"

text \<open>
  Modelled from the spec: the root-relative form of an absolute path, for
  \<open>normalizePath\<close> (\<open>./utils.js\<close> is not among the source files). The segments shared with
  the root are dropped and each remaining segment of the root is left by one \<open>..\<close>.
\<close>

fun relativeTo :: "string list \<Rightarrow> string list \<Rightarrow> string list" where
  "relativeTo [] ss = ss"
| "relativeTo (r # rs) [] = replicate (length (r # rs)) ''..''"
| "relativeTo (r # rs) (s # ss) =
     (if r = s then relativeTo rs ss else replicate (length (r # rs)) ''..'' @ s # ss)"

text \<open>
  Modelled from the spec: \<open>normalizePath\<close> of \<open>./utils.js\<close>, which is not among the
  source files. The spec asks for a root-relative, separator-normalized key: backslashes
  count as separators, empty segments, \<open>.\<close> and \<open>..\<close> are resolved, and an absolute path
  is expressed relative to the project root \<open>root\<close>.
\<close>

definition normalizePath :: "string \<Rightarrow> string \<Rightarrow> string" where
  "normalizePath root path =
     (let p = toPosix path;
          segments = normalizeSegments (\<not> isAbsolute p) [] (splitOn (CHR ''/'') p)
      in joinWith (CHR ''/'')
           (if isAbsolute p
            then relativeTo (normalizeSegments False [] (splitOn (CHR ''/'') (toPosix root))) segments
            else segments))"

text \<open>
  The shape of a key, for the proofs: leading \<open>..\<close> segments, then segments without dots
  or separators.
\<close>

definition plain :: "string \<Rightarrow> bool" where
  "plain s = (s \<noteq> [] \<and> s \<noteq> ''.'' \<and> s \<noteq> ''..'' \<and> CHR ''/'' \<notin> set s \<and> CHR 0x5C \<notin> set s)"

fun canonical :: "string list \<Rightarrow> bool" where
  "canonical [] = True"
| "canonical (s # ss) = (if s = ''..'' then canonical ss else plain s \<and> (\<forall>u \<in> set ss. plain u))"


section \<open>Distribution of sizes\<close>

text \<open>
  The size computation for virtual entries would sit behind \<open>generateHtmlReport\<close> in
  \<open>./report.js\<close>, which is not among the source files; the attribution above only stores
  \<open>bytes = 0\<close>. The definitions of this section follow the spec.
\<close>

text \<open>
  Modelled from the spec: collapsing the duplicates of a source list (\<open>./report.js\<close> is
  not among the source files). The order of the first occurrences is kept.
\<close>

fun firstOccurrences :: "string list \<Rightarrow> string list" where
  "firstOccurrences [] = []"
| "firstOccurrences (k # ks) = k # filter (\<lambda>x. x \<noteq> k) (firstOccurrences ks)"

text \<open>
  Modelled from the spec: the immediate virtual children of a compiled module
  (\<open>./report.js\<close> is not among the source files): the keys of its sources, in the order of
  the source map, whose entries belong to it. A module is never its own child.
\<close>

definition virtualChildren :: "(string \<Rightarrow> string) \<Rightarrow> string \<Rightarrow> string list \<Rightarrow> inputs \<Rightarrow> string list" where
  "virtualChildren nrm parentKey sources m =
     firstOccurrences
       (filter (\<lambda>k. k \<noteq> parentKey \<and> (case m k of None \<Rightarrow> False | Some e \<Rightarrow> belongsTo e = Some parentKey))
          (map (\<lambda>s. nrm (join (dirname parentKey) s)) sources))"

text \<open>
  Modelled from the spec: the equal split of the Size Analyzer (\<open>./report.js\<close> is not
  among the source files). Each of the \<open>n\<close> children gets the quotient, and the rounding
  remainder goes to the first.
\<close>

definition equalShares :: "nat \<Rightarrow> nat \<Rightarrow> nat list" where
  "equalShares amount n =
     (if n = 0 then [] else (amount div n + amount mod n) # replicate (n - 1) (amount div n))"

text \<open>
  Modelled from the spec: storing the shares (\<open>./report.js\<close> is not among the source
  files). Only \<open>bytes\<close> of the child entries changes.
\<close>

fun setBytes :: "string list \<Rightarrow> nat list \<Rightarrow> inputs \<Rightarrow> inputs" where
  "setBytes (k # ks) (b # bs) m =
     setBytes ks bs (case m k of None \<Rightarrow> m | Some e \<Rightarrow> m(k \<mapsto> e\<lparr>bytes := b\<rparr>))"
| "setBytes ks bs m = m"

text \<open>
  Modelled from the spec: the size computation of the Size Analyzer for one compiled
  module without range information (\<open>./report.js\<close> is not among the source files). The
  parent's bytes are split equally among its immediate virtual children.
\<close>

definition distributeSizes :: "(string \<Rightarrow> string) \<Rightarrow> string \<Rightarrow> string list \<Rightarrow> inputs \<Rightarrow> inputs" where
  "distributeSizes nrm parentKey sources m =
     (case m parentKey of
        None \<Rightarrow> m
      | Some parent \<Rightarrow>
          let children = virtualChildren nrm parentKey sources m
          in setBytes children (equalShares (bytes parent) (length children)) m)"

text \<open>The bytes recorded under a key, 0 when the key is missing.\<close>

definition bytesOf :: "inputs \<Rightarrow> string \<Rightarrow> nat" where
  "bytesOf m k = (case m k of None \<Rightarrow> 0 | Some e \<Rightarrow> bytes e)"


section \<open>Properties of path normalization\<close>

lemma plain_simps [simp]: "\<not> plain []" "\<not> plain ''.''" "\<not> plain ''..''"
  by (simp_all add: plain_def)

lemma splitOn_nonempty: "splitOn sep s \<noteq> []"
  by (induction s) (auto split: list.splits)

lemma splitOn_no_sep: "t \<in> set (splitOn sep s) \<Longrightarrow> sep \<notin> set t"
  by (induction s arbitrary: t) (auto split: list.splits if_splits)

lemma splitOn_chars: "t \<in> set (splitOn sep s) \<Longrightarrow> x \<in> set t \<Longrightarrow> x \<in> set s"
proof (induction s arbitrary: t)
  case Nil
  then show ?case by simp
next
  case (Cons c cs)
  show ?case
  proof (cases "c = sep")
    case True
    with Cons show ?thesis by auto
  next
    case False
    obtain u us where sp: "splitOn sep cs = u # us"
      using splitOn_nonempty [of sep cs] by (cases "splitOn sep cs") auto
    with False Cons.prems have "t = c # u \<or> t \<in> set us" by simp
    then show ?thesis
    proof
      assume "t = c # u"
      with Cons.prems(2) have "x = c \<or> x \<in> set u" by auto
      then show ?thesis using Cons.IH [of u] sp by auto
    next
      assume "t \<in> set us"
      then show ?thesis using Cons.IH [of t] sp Cons.prems(2) by auto
    qed
  qed
qed

lemma toPosix_no_backslash: "CHR 0x5C \<notin> set (toPosix p)"
  by (auto simp: toPosix_def)

lemma toPosix_id: "CHR 0x5C \<notin> set p \<Longrightarrow> toPosix p = p"
  by (induction p) (auto simp: toPosix_def)

lemma splitOn_single: "sep \<notin> set s \<Longrightarrow> splitOn sep s = [s]"
  by (induction s) auto

lemma splitOn_append: "sep \<notin> set s \<Longrightarrow> splitOn sep (s @ sep # r) = s # splitOn sep r"
  by (induction s) auto

lemma splitOn_joinWith:
  "\<forall>s \<in> set segs. sep \<notin> set s \<Longrightarrow>
   splitOn sep (joinWith sep segs) = (if segs = [] then [[]] else segs)"
  by (induction sep segs rule: joinWith.induct) (auto simp: splitOn_single splitOn_append)

lemma joinWith_chars:
  "x \<in> set (joinWith sep segs) \<Longrightarrow> x = sep \<or> (\<exists>s \<in> set segs. x \<in> set s)"
  by (induction sep segs rule: joinWith.induct) auto

lemma canonical_elem: "canonical xs \<Longrightarrow> x \<in> set xs \<Longrightarrow> x = ''..'' \<or> plain x"
  by (induction xs) (auto split: if_splits)

lemma canonical_snoc:
  "canonical (xs @ [t]) =
     (if t = ''..'' then (\<forall>x \<in> set xs. x = ''..'') else plain t \<and> canonical xs)"
  by (induction xs) auto

lemma canonical_before_dotdot: "canonical (xs @ ''..'' # ys) \<Longrightarrow> \<forall>x \<in> set xs. x = ''..''"
  by (induction xs) (auto split: if_splits)

lemma canonical_plain: "\<forall>s \<in> set ss. plain s \<Longrightarrow> canonical ss"
  by (cases ss) auto

lemma canonical_replicate: "canonical (replicate n ''..'' @ ss) = canonical ss"
  by (induction n) auto

lemma relativeTo_canonical: "\<forall>s \<in> set ss. plain s \<Longrightarrow> canonical (relativeTo rs ss)"
proof (induction rs ss rule: relativeTo.induct)
  case (1 ss)
  then show ?case by (simp add: canonical_plain)
next
  case (2 r rs)
  have "canonical (replicate (length (r # rs)) ''..'' @ [])"
    unfolding canonical_replicate by simp
  then show ?case by simp
next
  case (3 r rs s ss)
  have "canonical (replicate (length (r # rs)) ''..'' @ s # ss)"
    unfolding canonical_replicate using 3(2) by (simp add: canonical_plain)
  with 3 show ?case by simp
qed

lemma normalizeSegments_plain:
  "\<forall>s \<in> set segs. CHR ''/'' \<notin> set s \<and> CHR 0x5C \<notin> set s \<Longrightarrow> \<forall>a \<in> set acc. plain a \<Longrightarrow>
   \<forall>x \<in> set (normalizeSegments False acc segs). plain x"
proof (induction segs arbitrary: acc)
  case Nil
  then show ?case by simp
next
  case (Cons s ss)
  have ss: "\<forall>s \<in> set ss. CHR ''/'' \<notin> set s \<and> CHR 0x5C \<notin> set s"
    using Cons.prems(1) by simp
  note IH = Cons.IH [OF ss]
  show ?case
  proof (cases "s = [] \<or> s = ''.''")
    case True
    then show ?thesis using IH [OF Cons.prems(2)] by auto
  next
    case skip: False
    show ?thesis
    proof (cases "s = ''..''")
      case False
      with skip Cons.prems(1) have "plain s" by (simp add: plain_def)
      with Cons.prems(2) have "\<forall>a \<in> set (s # acc). plain a" by simp
      from IH [OF this] skip False show ?thesis by simp
    next
      case True
      show ?thesis
      proof (cases acc)
        case Nil
        with True IH [of "[]"] show ?thesis by simp
      next
        case (Cons t acc')
        with Cons.prems(2) have "\<forall>a \<in> set acc'. plain a" by simp
        from IH [OF this] IH [OF Cons.prems(2)] True Cons show ?thesis by simp
      qed
    qed
  qed
qed

lemma normalizeSegments_canonical:
  "\<forall>s \<in> set segs. CHR ''/'' \<notin> set s \<and> CHR 0x5C \<notin> set s \<Longrightarrow> canonical (rev acc) \<Longrightarrow>
   canonical (normalizeSegments True acc segs)"
proof (induction segs arbitrary: acc)
  case Nil
  then show ?case by simp
next
  case (Cons s ss)
  have ss: "\<forall>s \<in> set ss. CHR ''/'' \<notin> set s \<and> CHR 0x5C \<notin> set s"
    using Cons.prems(1) by simp
  show ?case
  proof (cases "s = [] \<or> s = ''.''")
    case True
    then show ?thesis using Cons.IH [OF ss Cons.prems(2)] by auto
  next
    case skip: False
    show ?thesis
    proof (cases "s = ''..''")
      case False
      with skip Cons.prems(1) have "plain s" by (simp add: plain_def)
      with False Cons.prems(2) have "canonical (rev (s # acc))" by (simp add: canonical_snoc)
      from Cons.IH [OF ss this] skip False show ?thesis by simp
    next
      case True
      show ?thesis
      proof (cases acc)
        case Nil
        have "canonical (rev [''..''])" by simp
        from Cons.IH [OF ss this] True Nil show ?thesis by simp
      next
        case (Cons t acc')
        show ?thesis
        proof (cases "t = ''..''")
          case False
          with Cons Cons.prems(2) have "canonical (rev acc')" by (simp add: canonical_snoc)
          from Cons.IH [OF ss this] True Cons False show ?thesis by simp
        next
          case tdd: True
          with Cons Cons.prems(2) have dots: "\<forall>x \<in> set (rev acc'). x = ''..''"
            by (simp add: canonical_snoc)
          have "canonical ((rev acc' @ [''..'']) @ [''..''])"
            unfolding canonical_snoc using dots by simp
          with tdd Cons have "canonical (rev (''..'' # acc))" by simp
          from Cons.IH [OF ss this] True Cons tdd show ?thesis by simp
        qed
      qed
    qed
  qed
qed

lemma normalizeSegments_fixed:
  "canonical (rev acc @ segs) \<Longrightarrow> normalizeSegments True acc segs = rev acc @ segs"
proof (induction segs arbitrary: acc)
  case Nil
  then show ?case by simp
next
  case (Cons s ss)
  have next_step: "normalizeSegments True (s # acc) ss = rev acc @ s # ss"
    using Cons.IH [of "s # acc"] Cons.prems by simp
  have "s = ''..'' \<or> plain s" using canonical_elem [OF Cons.prems, of s] by simp
  then show ?case
  proof
    assume "plain s"
    then have "s \<noteq> []" "s \<noteq> ''.''" "s \<noteq> ''..''" by auto
    with next_step show ?thesis by simp
  next
    assume dd: "s = ''..''"
    with Cons.prems have "\<forall>x \<in> set (rev acc). x = ''..''"
      using canonical_before_dotdot by blast
    with dd next_step show ?thesis by (cases acc) auto
  qed
qed

lemma canonical_not_absolute: "canonical segs \<Longrightarrow> \<not> isAbsolute (joinWith (CHR ''/'') segs)"
proof (cases segs)
  case Nil
  then show ?thesis by (simp add: isAbsolute_def)
next
  case (Cons s ss)
  assume "canonical segs"
  with Cons have "s = ''..'' \<or> plain s" using canonical_elem [of segs s] by simp
  then obtain c cs where s: "s = c # cs" and c: "c \<noteq> CHR ''/''"
    by (cases s) (auto simp: plain_def)
  show ?thesis
  proof (cases ss)
    case Nil
    with Cons s c show ?thesis by (simp add: isAbsolute_def)
  next
    case (Cons t ts)
    with \<open>segs = s # ss\<close> s c show ?thesis by (simp add: isAbsolute_def)
  qed
qed

lemma canonical_chars:
  "canonical segs \<Longrightarrow> s \<in> set segs \<Longrightarrow> CHR ''/'' \<notin> set s \<and> CHR 0x5C \<notin> set s"
  using canonical_elem [of segs s] by (auto simp: plain_def)

lemma normalizePath_canonical_segments:
  assumes "canonical segs"
  shows "normalizePath root (joinWith (CHR ''/'') segs) = joinWith (CHR ''/'') segs"
proof -
  let ?q = "joinWith (CHR ''/'') segs"
  have "CHR 0x5C \<notin> set ?q"
    using joinWith_chars [of "CHR 0x5C" "CHR ''/''" segs] canonical_chars [OF assms] by auto
  then have q: "toPosix ?q = ?q" by (rule toPosix_id)
  have rel: "\<not> isAbsolute ?q" using assms by (rule canonical_not_absolute)
  have sp: "splitOn (CHR ''/'') ?q = (if segs = [] then [[]] else segs)"
    using canonical_chars [OF assms] by (simp add: splitOn_joinWith)
  have "normalizeSegments True [] (splitOn (CHR ''/'') ?q) = segs"
    using sp normalizeSegments_fixed [of "[]" segs] assms by (cases "segs = []") auto
  with q rel show ?thesis by (simp add: normalizePath_def)
qed

lemma normalizePath_is_canonical:
  "\<exists>segs. canonical segs \<and> normalizePath root path = joinWith (CHR ''/'') segs"
proof -
  let ?p = "toPosix path"
  let ?raw = "splitOn (CHR ''/'') ?p"
  have clean: "\<forall>s \<in> set ?raw. CHR ''/'' \<notin> set s \<and> CHR 0x5C \<notin> set s"
    using splitOn_no_sep [of _ "CHR ''/''" ?p] splitOn_chars [of _ "CHR ''/''" ?p "CHR 0x5C"]
      toPosix_no_backslash [of path] by blast
  show ?thesis
  proof (cases "isAbsolute ?p")
    case True
    have "\<forall>x \<in> set (normalizeSegments False [] ?raw). plain x"
      using normalizeSegments_plain [OF clean, of "[]"] by simp
    then have "canonical (relativeTo (normalizeSegments False [] (splitOn (CHR ''/'') (toPosix root)))
                 (normalizeSegments False [] ?raw))"
      by (rule relativeTo_canonical)
    with True show ?thesis by (auto simp: normalizePath_def)
  next
    case False
    have "canonical (normalizeSegments True [] ?raw)"
      using normalizeSegments_canonical [OF clean, of "[]"] by simp
    with False show ?thesis by (auto simp: normalizePath_def)
  qed
qed



text \<open>
  C7. \<open>normalizePath\<close> is idempotent, the style of the separators does not matter, and
  \<open>a\b/../c\<close> and \<open>a/c\<close> have the same key.
\<close>

theorem normalizePath_idempotent:
  "normalizePath root (normalizePath root x) = normalizePath root x \<and>
   normalizePath root (map (\<lambda>c. if c = CHR 0x5C then CHR ''/'' else c) x) = normalizePath root x \<and>
   normalizePath root (''a'' @ [CHR 0x5C] @ ''b/../c'') = normalizePath root ''a/c''"
proof -
  obtain segs where "canonical segs" and "normalizePath root x = joinWith (CHR ''/'') segs"
    using normalizePath_is_canonical by blast
  then have idem: "normalizePath root (normalizePath root x) = normalizePath root x"
    by (simp add: normalizePath_canonical_segments)
  have "toPosix (toPosix x) = toPosix x"
    by (rule toPosix_id) (rule toPosix_no_backslash)
  then have style: "normalizePath root (toPosix x) = normalizePath root x"
    by (simp add: normalizePath_def)
  have "normalizePath root (''a'' @ [CHR 0x5C] @ ''b/../c'') = normalizePath root ''a/c''"
    by (simp add: normalizePath_def toPosix_def isAbsolute_def)
  with idem style show ?thesis by (simp add: toPosix_def)
qed


section \<open>Properties of attribution\<close>

lemma attributeSources_apply:
  "attributeSources nrm path parent sources m k =
     (if k \<in> (\<lambda>s. nrm (join (dirname path) s)) ` set sources
      then Some \<lparr>bytes = 0, format = format parent, imports = [], belongsTo = Some path\<rparr>
      else m k)"
  by (induction sources arbitrary: m) auto

lemma attribute_append:
  "attribute nrm (g @ h) m =
     (case attribute nrm g m of
        (None, mid) \<Rightarrow> attribute nrm h mid
      | (Some e, mid) \<Rightarrow> (Some e, mid))"
  by (induction g arbitrary: m) (auto split: option.splits)

lemma childKeys_Nil: "childKeys nrm [] = {}"
  by (simp add: childKeys_def)

lemma childKeys_Cons:
  "childKeys nrm ((path, sources) # g) =
     (\<lambda>s. nrm (join (dirname path) s)) ` set sources \<union> childKeys nrm g"
  by (auto simp: childKeys_def)

lemma childKeys_append: "childKeys nrm (g @ h) = childKeys nrm g \<union> childKeys nrm h"
  by (auto simp: childKeys_def)

lemma attribute_frame: "k \<notin> childKeys nrm g \<Longrightarrow> snd (attribute nrm g m) k = m k"
proof (induction g arbitrary: m)
  case Nil
  then show ?case by simp
next
  case (Cons a g)
  obtain path sources where a: "a = (path, sources)" by (cases a)
  from Cons.prems a have here: "k \<notin> (\<lambda>s. nrm (join (dirname path) s)) ` set sources"
    and rest: "k \<notin> childKeys nrm g" by (simp_all add: childKeys_Cons)
  show ?case
  proof (cases "m path")
    case None
    with a Cons.IH [OF rest] show ?thesis by simp
  next
    case (Some parent)
    have "snd (attribute nrm g (attributeSources nrm path parent sources m)) k =
            attributeSources nrm path parent sources m k"
      using rest by (rule Cons.IH)
    with a Some here show ?thesis by (simp add: attributeSources_apply)
  qed
qed

lemma attribute_origin:
  "snd (attribute nrm g m) k = m k \<or>
   (\<exists>path sources s fmt. (path, sources) \<in> set g \<and> s \<in> set sources \<and>
      k = nrm (join (dirname path) s) \<and>
      snd (attribute nrm g m) k =
        Some \<lparr>bytes = 0, format = fmt, imports = [], belongsTo = Some path\<rparr>)"
proof (induction g arbitrary: m)
  case Nil
  then show ?case by simp
next
  case (Cons a g)
  obtain path sources where a: "a = (path, sources)" by (cases a)
  show ?case
  proof (cases "m path")
    case None
    show ?thesis
    proof (cases "sources = []")
      case True
      with a None have "snd (attribute nrm (a # g) m) = snd (attribute nrm g m)" by simp
      with Cons.IH [of m] show ?thesis by auto
    next
      case False
      with a None show ?thesis by simp
    qed
  next
    case (Some parent)
    let ?mid = "attributeSources nrm path parent sources m"
    have step: "snd (attribute nrm (a # g) m) = snd (attribute nrm g ?mid)"
      using a Some by simp
    have "snd (attribute nrm g ?mid) k = ?mid k \<or>
        (\<exists>path sources s fmt. (path, sources) \<in> set g \<and> s \<in> set sources \<and>
           k = nrm (join (dirname path) s) \<and>
           snd (attribute nrm g ?mid) k =
             Some \<lparr>bytes = 0, format = fmt, imports = [], belongsTo = Some path\<rparr>)"
      using Cons.IH [of ?mid] .
    then show ?thesis
    proof
      assume same: "snd (attribute nrm g ?mid) k = ?mid k"
      show ?thesis
      proof (cases "k \<in> (\<lambda>s. nrm (join (dirname path) s)) ` set sources")
        case False
        with same show ?thesis unfolding step by (simp add: attributeSources_apply)
      next
        case True
        then obtain s where "s \<in> set sources" and "k = nrm (join (dirname path) s)" by auto
        moreover from True same have "snd (attribute nrm g ?mid) k =
            Some \<lparr>bytes = 0, format = format parent, imports = [], belongsTo = Some path\<rparr>"
          by (simp add: attributeSources_apply)
        moreover have "(path, sources) \<in> set (a # g)" using a by simp
        ultimately show ?thesis unfolding step by blast
      qed
    next
      assume "\<exists>path sources s fmt. (path, sources) \<in> set g \<and> s \<in> set sources \<and>
           k = nrm (join (dirname path) s) \<and>
           snd (attribute nrm g ?mid) k =
             Some \<lparr>bytes = 0, format = fmt, imports = [], belongsTo = Some path\<rparr>"
      then obtain p ss s fmt where "(p, ss) \<in> set g" "s \<in> set ss" "k = nrm (join (dirname p) s)"
        "snd (attribute nrm g ?mid) k = Some \<lparr>bytes = 0, format = fmt, imports = [], belongsTo = Some p\<rparr>"
        by blast
      moreover then have "(p, ss) \<in> set (a # g)" by simp
      ultimately show ?thesis unfolding step by blast
    qed
  qed
qed

lemma attribute_written:
  "attribute nrm g m = (None, r) \<Longrightarrow> k \<in> childKeys nrm g \<Longrightarrow>
   \<exists>path fmt. r k = Some \<lparr>bytes = 0, format = fmt, imports = [], belongsTo = Some path\<rparr>"
proof (induction g arbitrary: m)
  case Nil
  then show ?case by (simp add: childKeys_Nil)
next
  case (Cons a g)
  obtain path sources where a: "a = (path, sources)" by (cases a)
  show ?case
  proof (cases "k \<in> childKeys nrm g")
    case True
    show ?thesis
    proof (cases "m path")
      case None
      with a Cons.prems(1) have "attribute nrm g m = (None, r)" by (simp split: if_splits)
      from Cons.IH [OF this True] show ?thesis .
    next
      case (Some parent)
      with a Cons.prems(1)
      have "attribute nrm g (attributeSources nrm path parent sources m) = (None, r)" by simp
      from Cons.IH [OF this True] show ?thesis .
    qed
  next
    case False
    with Cons.prems(2) a have here: "k \<in> (\<lambda>s. nrm (join (dirname path) s)) ` set sources"
      by (simp add: childKeys_Cons)
    then have nonempty: "sources \<noteq> []" by auto
    show ?thesis
    proof (cases "m path")
      case None
      with a Cons.prems(1) nonempty show ?thesis by simp
    next
      case (Some parent)
      let ?mid = "attributeSources nrm path parent sources m"
      from a Some Cons.prems(1) have "attribute nrm g ?mid = (None, r)" by simp
      then have "r = snd (attribute nrm g ?mid)" by simp
      with attribute_frame [OF False, of ?mid] have "r k = ?mid k" by simp
      with here show ?thesis by (auto simp: attributeSources_apply)
    qed
  qed
qed

text \<open>
  C1. When the loop reaches a compiled key \<open>P\<close> whose entry is \<open>parent\<close>, then for every
  source \<open>s\<close> of its list the mapping holds, under the key
  \<open>normalizePath (join (dirname P) s)\<close>, the entry with \<open>bytes = 0\<close>, \<open>imports = []\<close>,
  \<open>belongsTo = P\<close> and the format of \<open>parent\<close>.
\<close>

theorem attribute_records_virtual_entry:
  assumes "attribute nrm pre m = (None, mid)"
    and "mid P = Some parent"
    and "s \<in> set sources"
  shows "\<exists>r. attribute nrm (pre @ [(P, sources)]) m = (None, r) \<and>
             r (nrm (join (dirname P) s)) =
               Some \<lparr>bytes = 0, format = format parent, imports = [], belongsTo = Some P\<rparr>"
  using assms by (simp add: attribute_append attributeSources_apply)

theorem attribute_records_virtual_entry_witness:
  "\<exists>r. attribute (normalizePath ''/proj'') ([] @ [(''a/b/bundle.js'', [''../x.ts'', ''../y.ts''])])
          [''a/b/bundle.js'' \<mapsto> \<lparr>bytes = 238, format = Esm, imports = [], belongsTo = None\<rparr>]
        = (None, r) \<and>
       r ''a/x.ts'' = Some \<lparr>bytes = 0, format = Esm, imports = [], belongsTo = Some ''a/b/bundle.js''\<rparr>"
proof -
  let ?m = "[''a/b/bundle.js'' \<mapsto> \<lparr>bytes = 238, format = Esm, imports = [], belongsTo = None\<rparr>]"
  have key: "normalizePath ''/proj'' (join (dirname ''a/b/bundle.js'') ''../x.ts'') = ''a/x.ts''"
    by code_simp
  have pre: "attribute (normalizePath ''/proj'') [] ?m = (None, ?m)" by simp
  have parent: "?m ''a/b/bundle.js'' = Some \<lparr>bytes = 238, format = Esm, imports = [], belongsTo = None\<rparr>"
    by simp
  have s: "''../x.ts'' \<in> set [''../x.ts'', ''../y.ts'']" by simp
  from attribute_records_virtual_entry [OF pre parent s] show ?thesis
    unfolding key by simp
qed


subsection \<open>The entries attribution overwrites\<close>

text \<open>
  C5, as the code has it. Attribution leaves an entry alone exactly when its key is not
  the key computed for some source; under a computed key it stores the virtual entry,
  whatever stood there before. There is no test for a real module under that key.
\<close>

theorem attribute_overwrites_child_keys:
  assumes "attribute nrm g m = (None, r)"
  shows "(k \<notin> childKeys nrm g \<longrightarrow> r k = m k) \<and>
         (k \<in> childKeys nrm g \<longrightarrow>
            (\<exists>path fmt. r k = Some \<lparr>bytes = 0, format = fmt, imports = [], belongsTo = Some path\<rparr>))"
proof -
  have "r = snd (attribute nrm g m)" using assms by simp
  then have "k \<notin> childKeys nrm g \<Longrightarrow> r k = m k" by (simp add: attribute_frame)
  moreover have "k \<in> childKeys nrm g \<Longrightarrow>
      \<exists>path fmt. r k = Some \<lparr>bytes = 0, format = fmt, imports = [], belongsTo = Some path\<rparr>"
    using assms by (rule attribute_written)
  ultimately show ?thesis by blast
qed

theorem attribute_overwrites_child_keys_witness:
  "\<exists>r. attribute (normalizePath ''/proj'') [(''a/p.js'', [''r.js''])]
     [''a/p.js'' \<mapsto> \<lparr>bytes = 20, format = Esm, imports = [''a/r.js''], belongsTo = None\<rparr>,
      ''a/r.js'' \<mapsto> \<lparr>bytes = 10, format = Cjs, imports = [''fs''], belongsTo = None\<rparr>] = (None, r) \<and>
     r ''a/p.js'' = Some \<lparr>bytes = 20, format = Esm, imports = [''a/r.js''], belongsTo = None\<rparr> \<and>
     (\<exists>path fmt. r ''a/r.js'' = Some \<lparr>bytes = 0, format = fmt, imports = [], belongsTo = Some path\<rparr>)"
proof -
  let ?m = "[''a/p.js'' \<mapsto> \<lparr>bytes = 20, format = Esm, imports = [''a/r.js''], belongsTo = None\<rparr>,
      ''a/r.js'' \<mapsto> \<lparr>bytes = 10, format = Cjs, imports = [''fs''], belongsTo = None\<rparr>]"
  let ?g = "[(''a/p.js'', [''r.js''])]"
  let ?r = "snd (attribute (normalizePath ''/proj'') ?g ?m)"
  have key: "normalizePath ''/proj'' (join (dirname ''a/p.js'') ''r.js'') = ''a/r.js''"
    by code_simp
  have ok: "attribute (normalizePath ''/proj'') ?g ?m = (None, ?r)" by simp
  have inside: "''a/r.js'' \<in> childKeys (normalizePath ''/proj'') ?g"
    by (simp add: childKeys_Cons childKeys_Nil key)
  have outside: "''a/p.js'' \<notin> childKeys (normalizePath ''/proj'') ?g"
    by (simp add: childKeys_Cons childKeys_Nil key)
  from attribute_overwrites_child_keys [OF ok, of "''a/p.js''"] outside
  have p: "?r ''a/p.js'' = ?m ''a/p.js''" by blast
  from attribute_overwrites_child_keys [OF ok, of "''a/r.js''"] inside
  have r: "\<exists>path fmt. ?r ''a/r.js'' =
      Some \<lparr>bytes = 0, format = fmt, imports = [], belongsTo = Some path\<rparr>" by blast
  from p have "?r ''a/p.js'' =
      Some \<lparr>bytes = 20, format = Esm, imports = [''a/r.js''], belongsTo = None\<rparr>" by simp
  with ok r show ?thesis by blast
qed

text \<open>
  A module reported with ten bytes and one import is replaced by a virtual entry once a
  source of another module resolves to its key.
\<close>

theorem real_module_overwritten_counterexample:
  "snd (attribute (normalizePath ''/proj'') [(''a/p.js'', [''r.js''])]
     [''a/p.js'' \<mapsto> \<lparr>bytes = 20, format = Esm, imports = [''a/r.js''], belongsTo = None\<rparr>,
      ''a/r.js'' \<mapsto> \<lparr>bytes = 10, format = Cjs, imports = [''fs''], belongsTo = None\<rparr>]) ''a/r.js''
   = Some \<lparr>bytes = 0, format = Esm, imports = [], belongsTo = Some ''a/p.js''\<rparr>"
  by code_simp


subsection \<open>Two modules with the same source\<close>

text \<open>
  C4, as the code has it. The entry under a computed key comes from the last compiled
  module, in the order of the source-map graph, with a source that resolves to the key:
  when no later module produces the key, \<open>belongsTo\<close> and the format are those of the
  module at hand. The mapping being a dictionary, the key has this one entry.
\<close>

theorem attribute_last_writer_wins:
  assumes "attribute nrm pre m = (None, mid)"
    and "mid P = Some parent"
    and "s \<in> set sources"
    and "nrm (join (dirname P) s) \<notin> childKeys nrm post"
  shows "snd (attribute nrm (pre @ (P, sources) # post) m) (nrm (join (dirname P) s)) =
           Some \<lparr>bytes = 0, format = format parent, imports = [], belongsTo = Some P\<rparr> \<and>
         (\<exists>!e. snd (attribute nrm (pre @ (P, sources) # post) m) (nrm (join (dirname P) s)) = Some e)"
proof -
  let ?k = "nrm (join (dirname P) s)"
  let ?after = "attributeSources nrm P parent sources mid"
  have "snd (attribute nrm (pre @ (P, sources) # post) m) = snd (attribute nrm post ?after)"
    using assms(1,2) by (simp add: attribute_append)
  moreover have "snd (attribute nrm post ?after) ?k = ?after ?k"
    using assms(4) by (rule attribute_frame)
  moreover have "?after ?k = Some \<lparr>bytes = 0, format = format parent, imports = [], belongsTo = Some P\<rparr>"
    using assms(3) by (simp add: attributeSources_apply)
  ultimately show ?thesis by simp
qed

theorem attribute_last_writer_wins_witness:
  "snd (attribute (normalizePath ''/proj'')
      ([(''shared/a.js'', [''util.ts''])] @ (''shared/b.js'', [''util.ts'']) # [])
      [''shared/a.js'' \<mapsto> \<lparr>bytes = 10, format = Esm, imports = [], belongsTo = None\<rparr>,
       ''shared/b.js'' \<mapsto> \<lparr>bytes = 20, format = Cjs, imports = [], belongsTo = None\<rparr>]) ''shared/util.ts''
   = Some \<lparr>bytes = 0, format = Cjs, imports = [], belongsTo = Some ''shared/b.js''\<rparr>"
proof -
  let ?m = "[''shared/a.js'' \<mapsto> \<lparr>bytes = 10, format = Esm, imports = [], belongsTo = None\<rparr>,
       ''shared/b.js'' \<mapsto> \<lparr>bytes = 20, format = Cjs, imports = [], belongsTo = None\<rparr>]"
  let ?mid = "?m(''shared/util.ts'' \<mapsto>
       \<lparr>bytes = 0, format = Esm, imports = [], belongsTo = Some ''shared/a.js''\<rparr>)"
  have a: "normalizePath ''/proj'' (join (dirname ''shared/a.js'') ''util.ts'') = ''shared/util.ts''"
    by code_simp
  have b: "normalizePath ''/proj'' (join (dirname ''shared/b.js'') ''util.ts'') = ''shared/util.ts''"
    by code_simp
  have pre: "attribute (normalizePath ''/proj'') [(''shared/a.js'', [''util.ts''])] ?m = (None, ?mid)"
    by (simp add: a)
  have parent: "?mid ''shared/b.js'' =
      Some \<lparr>bytes = 20, format = Cjs, imports = [], belongsTo = None\<rparr>" by simp
  have s: "''util.ts'' \<in> set [''util.ts'']" by simp
  have last: "normalizePath ''/proj'' (join (dirname ''shared/b.js'') ''util.ts'')
      \<notin> childKeys (normalizePath ''/proj'') []" by (simp add: childKeys_Nil)
  from attribute_last_writer_wins [OF pre parent s last] show ?thesis
    unfolding b by simp
qed

text \<open>
  With one module the shared source belongs to the first; with a second module listing
  the same source it belongs to the second.
\<close>

theorem first_writer_counterexample:
  "snd (attribute (normalizePath ''/proj'') [(''shared/a.js'', [''util.ts''])]
      [''shared/a.js'' \<mapsto> \<lparr>bytes = 10, format = Esm, imports = [], belongsTo = None\<rparr>,
       ''shared/b.js'' \<mapsto> \<lparr>bytes = 20, format = Cjs, imports = [], belongsTo = None\<rparr>]) ''shared/util.ts''
   = Some \<lparr>bytes = 0, format = Esm, imports = [], belongsTo = Some ''shared/a.js''\<rparr> \<and>
   snd (attribute (normalizePath ''/proj'')
      [(''shared/a.js'', [''util.ts'']), (''shared/b.js'', [''util.ts''])]
      [''shared/a.js'' \<mapsto> \<lparr>bytes = 10, format = Esm, imports = [], belongsTo = None\<rparr>,
       ''shared/b.js'' \<mapsto> \<lparr>bytes = 20, format = Cjs, imports = [], belongsTo = None\<rparr>]) ''shared/util.ts''
   = Some \<lparr>bytes = 0, format = Cjs, imports = [], belongsTo = Some ''shared/b.js''\<rparr>"
  by code_simp


subsection \<open>Sources that resolve to their own module\<close>

text \<open>
  C3, as the code has it. Attribution has no test for a source that resolves to the key
  of its own compiled module. If no source of the graph does so, and no entry belonged to
  itself before, then no entry belongs to itself afterwards.
\<close>

theorem attribute_no_self_reference:
  assumes "noSelfReference m"
    and "\<forall>(P, sources) \<in> set g. \<forall>s \<in> set sources. nrm (join (dirname P) s) \<noteq> P"
  shows "noSelfReference (snd (attribute nrm g m))"
  unfolding noSelfReference_def
proof (intro allI impI)
  fix k e
  assume r: "snd (attribute nrm g m) k = Some e"
  from attribute_origin [of nrm g m k] show "belongsTo e \<noteq> Some k"
  proof
    assume "snd (attribute nrm g m) k = m k"
    with r assms(1) show ?thesis by (simp add: noSelfReference_def)
  next
    assume "\<exists>path sources s fmt. (path, sources) \<in> set g \<and> s \<in> set sources \<and>
      k = nrm (join (dirname path) s) \<and>
      snd (attribute nrm g m) k =
        Some \<lparr>bytes = 0, format = fmt, imports = [], belongsTo = Some path\<rparr>"
    then obtain path sources s fmt where in_g: "(path, sources) \<in> set g" and s: "s \<in> set sources"
      and k: "k = nrm (join (dirname path) s)"
      and v: "snd (attribute nrm g m) k =
        Some \<lparr>bytes = 0, format = fmt, imports = [], belongsTo = Some path\<rparr>"
      by blast
    from assms(2) in_g s have "nrm (join (dirname path) s) \<noteq> path" by blast
    with k r v show ?thesis by auto
  qed
qed

theorem attribute_no_self_reference_witness:
  "noSelfReference (snd (attribute (normalizePath ''/proj'')
      [(''a/b/bundle.js'', [''../x.ts'', ''../y.ts''])]
      [''a/b/bundle.js'' \<mapsto> \<lparr>bytes = 238, format = Esm, imports = [], belongsTo = None\<rparr>]))"
proof -
  have x: "normalizePath ''/proj'' (join (dirname ''a/b/bundle.js'') ''../x.ts'') = ''a/x.ts''"
    by code_simp
  have y: "normalizePath ''/proj'' (join (dirname ''a/b/bundle.js'') ''../y.ts'') = ''a/y.ts''"
    by code_simp
  have start: "noSelfReference
      [''a/b/bundle.js'' \<mapsto> \<lparr>bytes = 238, format = Esm, imports = [], belongsTo = None\<rparr>]"
    by (simp add: noSelfReference_def)
  have sources: "\<forall>(P, sources) \<in> set [(''a/b/bundle.js'', [''../x.ts'', ''../y.ts''])].
      \<forall>s \<in> set sources. normalizePath ''/proj'' (join (dirname P) s) \<noteq> P"
    by (simp add: x y)
  from attribute_no_self_reference [OF start sources] show ?thesis .
qed

text \<open>
  A module whose source map lists the module's own file ends up belonging to itself.
\<close>

theorem self_reference_counterexample:
  "inputs (fst (run (normalizePath ''/proj'') ''/proj'' (\<lambda>a m. Some ''report'') False
      [Load ''/proj/dist/lib.js'' (Some [''lib.js'']),
       WriteBundle (Some (\<lparr>dir = Some ''dist'', file = None\<rparr>, [''lib.js'']))]
      initialState \<lparr>files = Map.empty, opened = []\<rparr>)) ''dist/lib.js''
   = Some \<lparr>bytes = 0, format = Unknown, imports = [], belongsTo = Some ''dist/lib.js''\<rparr>"
  by code_simp


section \<open>The invariant of the plugin's mapping\<close>

lemma belongsToClosed_update:
  "belongsToClosed m \<Longrightarrow> (\<And>p. belongsTo e = Some p \<Longrightarrow> p = k \<or> m p \<noteq> None) \<Longrightarrow>
   belongsToClosed (m(k \<mapsto> e))"
  unfolding belongsToClosed_def by (auto split: if_splits)

lemma belongsToClosed_update_real:
  "belongsToClosed m \<Longrightarrow> belongsTo e = None \<Longrightarrow> belongsToClosed (m(k \<mapsto> e))"
  by (rule belongsToClosed_update) simp_all

lemma attributeSources_closed:
  "belongsToClosed m \<Longrightarrow> m path \<noteq> None \<Longrightarrow>
   belongsToClosed (attributeSources nrm path parent sources m)"
proof (induction sources arbitrary: m)
  case Nil
  then show ?case by simp
next
  case (Cons s sources)
  let ?m = "m(nrm (join (dirname path) s) \<mapsto>
              \<lparr>bytes = 0, format = format parent, imports = [], belongsTo = Some path\<rparr>)"
  have c: "belongsToClosed ?m" using Cons.prems by (intro belongsToClosed_update) auto
  have d: "?m path \<noteq> None" using Cons.prems(2) by simp
  show ?case unfolding attributeSources.simps using c d by (rule Cons.IH)
qed

lemma attribute_closed: "belongsToClosed m \<Longrightarrow> belongsToClosed (snd (attribute nrm g m))"
proof (induction g arbitrary: m)
  case Nil
  then show ?case by simp
next
  case (Cons a g)
  obtain path sources where a: "a = (path, sources)" by (cases a)
  show ?case
  proof (cases "m path")
    case None
    with a Cons show ?thesis by simp
  next
    case (Some parent)
    then have "belongsToClosed (attributeSources nrm path parent sources m)"
      using Cons.prems by (intro attributeSources_closed) auto
    from Cons.IH [OF this] a Some show ?thesis by simp
  qed
qed

lemma optimizeModule_closed: "belongsToClosed m \<Longrightarrow> belongsToClosed (optimizeModule nrm md m)"
proof (cases "m (resource md)")
  case None
  assume "belongsToClosed m"
  then show ?thesis unfolding optimizeModule_def Let_def using None
    by (simp add: belongsToClosed_update_real)
next
  case (Some existing)
  assume c: "belongsToClosed m"
  have "belongsToClosed (m(resource md \<mapsto> existing\<lparr>format := f, imports := i\<rparr>))" for f i
  proof (rule belongsToClosed_update [OF c])
    fix p assume "belongsTo (existing\<lparr>format := f, imports := i\<rparr>) = Some p"
    then have "belongsTo existing = Some p" by simp
    with c Some show "p = resource md \<or> m p \<noteq> None" unfolding belongsToClosed_def by blast
  qed
  then show ?thesis unfolding optimizeModule_def Let_def using Some by simp
qed

lemma optimizeModules_closed: "belongsToClosed m \<Longrightarrow> belongsToClosed (optimizeModules nrm mds m)"
  by (induction mds arbitrary: m) (simp_all add: optimizeModule_closed)

lemma moduleParsed_closed: "belongsToClosed m \<Longrightarrow> belongsToClosed (moduleParsed nrm info m)"
proof -
  assume c: "belongsToClosed m"
  have "belongsToClosed (m(nrm (id' info) \<mapsto>
          (case m (nrm (id' info)) of Some e \<Rightarrow> e
           | None \<Rightarrow> \<lparr>bytes = 0, format = Unknown, imports = [], belongsTo = None\<rparr>)
          \<lparr>bytes := b, format := f, imports := i\<rparr>))" for b f i
  proof (rule belongsToClosed_update [OF c])
    fix p
    assume "belongsTo ((case m (nrm (id' info)) of Some e \<Rightarrow> e
           | None \<Rightarrow> \<lparr>bytes = 0, format = Unknown, imports = [], belongsTo = None\<rparr>)
          \<lparr>bytes := b, format := f, imports := i\<rparr>) = Some p"
    then obtain e where "m (nrm (id' info)) = Some e" and "belongsTo e = Some p"
      by (cases "m (nrm (id' info))") auto
    with c show "p = nrm (id' info) \<or> m p \<noteq> None" unfolding belongsToClosed_def by blast
  qed
  then show ?thesis unfolding moduleParsed_def Let_def by simp
qed

lemma load_closed: "belongsToClosed (inputs st) \<Longrightarrow> belongsToClosed (inputs (load nrm ident ms st))"
  by (cases ms) (simp_all add: load_def Let_def belongsToClosed_update_real)

lemma generateReportFromAssets_inputs:
  "inputs (fst (snd (generateReportFromAssets nrm gen a d so st w))) =
     snd (attribute nrm (sourcesGraph st) (inputs st))"
  by (simp add: generateReportFromAssets_def Let_def split: prod.splits option.splits)

lemma writeBundle_closed:
  "belongsToClosed (inputs st) \<Longrightarrow>
   belongsToClosed (inputs (fst (snd (writeBundle nrm cwd gen so args st w))))"
  by (cases args)
     (auto simp: writeBundle_def Let_def generateReportFromAssets_inputs attribute_closed
           split: option.splits)

lemma step_closed:
  "belongsToClosed (inputs st) \<Longrightarrow>
   belongsToClosed (inputs (fst (snd (step nrm cwd gen so e st w))))"
  by (cases e)
     (simp_all add: load_closed afterEmit_def Let_def optimizeModules_closed moduleParsed_closed
        writeBundle_closed)

lemma run_closed:
  "belongsToClosed (inputs st) \<Longrightarrow> belongsToClosed (inputs (fst (run nrm cwd gen so es st w)))"
proof (induction es arbitrary: st w)
  case Nil
  then show ?case by simp
next
  case (Cons e es)
  obtain err st1 w1 where s: "step nrm cwd gen so e st w = (err, st1, w1)"
    by (cases "step nrm cwd gen so e st w") auto
  with step_closed [OF Cons.prems, of nrm cwd gen so e w] have "belongsToClosed (inputs st1)" by simp
  from Cons.IH [OF this] s show ?case by simp
qed

lemma writeBundle_inputs:
  "inputs (fst (snd (writeBundle nrm cwd gen so args st w))) = inputs st \<or>
   inputs (fst (snd (writeBundle nrm cwd gen so args st w))) =
     snd (attribute nrm (sourcesGraph st) (inputs st))"
  by (cases args)
     (auto simp: writeBundle_def Let_def generateReportFromAssets_inputs split: option.splits)

lemma attribute_real_kept:
  "snd (attribute nrm g m) k = Some e \<Longrightarrow> belongsTo e = None \<Longrightarrow> m k = Some e"
  using attribute_origin [of nrm g m k] by auto

text \<open>
  C9, as the code has it. Whatever hooks have run, every \<open>belongsTo\<close> of the mapping
  names a key of the mapping. An entry that is still a real module after \<open>writeBundle\<close>
  is the entry that stood there before, with its imports as they were reported, whether or
  not they name keys of the mapping.
\<close>

theorem belongsTo_closed_real_entries_kept:
  "belongsToClosed (inputs (fst (run nrm cwd gen so es initialState w))) \<and>
   (\<forall>k e. inputs (fst (snd (writeBundle nrm cwd gen so args st w0))) k = Some e \<longrightarrow>
      belongsTo e = None \<longrightarrow> inputs st k = Some e)"
proof -
  have "belongsToClosed (inputs initialState)"
    by (simp add: initialState_def belongsToClosed_def)
  then have "belongsToClosed (inputs (fst (run nrm cwd gen so es initialState w)))"
    by (rule run_closed)
  moreover have "inputs st k = Some e"
    if "inputs (fst (snd (writeBundle nrm cwd gen so args st w0))) k = Some e" "belongsTo e = None"
    for k e
    using writeBundle_inputs [of nrm cwd gen so args st w0] that
    by (auto dest: attribute_real_kept)
  ultimately show ?thesis by blast
qed

theorem belongsTo_closed_real_entries_kept_witness:
  "belongsToClosed (inputs (fst (run (normalizePath ''/proj'') ''/proj'' (\<lambda>a m. Some ''report'') False
     [Load ''/proj/a/b/bundle.js'' (Some [''../x.ts'', ''../y.ts'']),
      WriteBundle (Some (\<lparr>dir = Some ''dist'', file = None\<rparr>, [''out.js'']))]
     initialState \<lparr>files = Map.empty, opened = []\<rparr>))) \<and>
   inputs \<lparr>outputDir = None, assets = None,
       inputs = [''a/b/bundle.js'' \<mapsto> \<lparr>bytes = 238, format = Esm, imports = [''fs''], belongsTo = None\<rparr>],
       sourcesGraph = [(''a/b/bundle.js'', [''../x.ts'', ''../y.ts''])]\<rparr> ''a/b/bundle.js''
     = Some \<lparr>bytes = 238, format = Esm, imports = [''fs''], belongsTo = None\<rparr>"
proof -
  let ?st = "\<lparr>outputDir = None, assets = None,
       inputs = [''a/b/bundle.js'' \<mapsto> \<lparr>bytes = 238, format = Esm, imports = [''fs''], belongsTo = None\<rparr>],
       sourcesGraph = [(''a/b/bundle.js'', [''../x.ts'', ''../y.ts''])]\<rparr>"
  let ?e = "\<lparr>bytes = 238, format = Esm, imports = [''fs''], belongsTo = None\<rparr>"
  have after: "inputs (fst (snd (writeBundle (normalizePath ''/proj'') ''/proj'' (\<lambda>a m. Some ''report'') False
      (Some (\<lparr>dir = Some ''dist'', file = None\<rparr>, [''out.js''])) ?st
      \<lparr>files = Map.empty, opened = []\<rparr>))) ''a/b/bundle.js'' = Some ?e"
    by code_simp
  have real: "belongsTo ?e = None" by simp
  note inst = belongsTo_closed_real_entries_kept [of "normalizePath ''/proj''" "''/proj''"
      "\<lambda>a m. Some ''report''" False
      "[Load ''/proj/a/b/bundle.js'' (Some [''../x.ts'', ''../y.ts'']),
        WriteBundle (Some (\<lparr>dir = Some ''dist'', file = None\<rparr>, [''out.js'']))]"
      "\<lparr>files = Map.empty, opened = []\<rparr>"
      "Some (\<lparr>dir = Some ''dist'', file = None\<rparr>, [''out.js''])" ?st
      "\<lparr>files = Map.empty, opened = []\<rparr>"]
  from inst after real show ?thesis by blast
qed

text \<open>
  The imports of a module are lost, dangling or not, when a source of another module
  resolves to its key: the module's entry is replaced by a virtual one. Here the module
  imports \<open>fs\<close>, which is no key of the mapping.
\<close>

theorem dangling_import_dropped_counterexample:
  "map_option imports (inputs (fst (run (normalizePath ''/proj'') ''/proj'' (\<lambda>a m. Some ''report'') False
     [Load ''/proj/a/p.js'' (Some [''r.js'']),
      ModuleParsed \<lparr>id' = ''/proj/a/r.js'', code = Some ''x'', isCommonJS = Some True, importedIds = [''fs'']\<rparr>]
     initialState \<lparr>files = Map.empty, opened = []\<rparr>)) ''a/r.js'') = Some [''fs''] \<and>
   inputs (fst (run (normalizePath ''/proj'') ''/proj'' (\<lambda>a m. Some ''report'') False
     [Load ''/proj/a/p.js'' (Some [''r.js'']),
      ModuleParsed \<lparr>id' = ''/proj/a/r.js'', code = Some ''x'', isCommonJS = Some True, importedIds = [''fs'']\<rparr>]
     initialState \<lparr>files = Map.empty, opened = []\<rparr>)) ''fs'' = None \<and>
   map_option imports (inputs (fst (run (normalizePath ''/proj'') ''/proj'' (\<lambda>a m. Some ''report'') False
     [Load ''/proj/a/p.js'' (Some [''r.js'']),
      ModuleParsed \<lparr>id' = ''/proj/a/r.js'', code = Some ''x'', isCommonJS = Some True, importedIds = [''fs'']\<rparr>,
      WriteBundle (Some (\<lparr>dir = Some ''dist'', file = None\<rparr>, [''out.js'']))]
     initialState \<lparr>files = Map.empty, opened = []\<rparr>)) ''a/r.js'') = Some []"
  by code_simp


section \<open>Attribution inside the plugin\<close>

text \<open>
  \<open>load\<close> stores an entry for every key it adds to the source-map graph and no hook
  removes an entry, so the attribution of \<open>writeBundle\<close> always finds the parent it
  reads: in the plugin the \<open>TypeError\<close> of the loop cannot occur.
\<close>

lemma mapSet_keys: "fst ` set (mapSet k v g) = insert k (fst ` set g)"
proof (induction g)
  case Nil
  then show ?case by simp
next
  case (Cons a g)
  obtain k' v' where a: "a = (k', v')" by (cases a)
  show ?case
  proof (cases "k' = k")
    case True
    with a show ?thesis by simp
  next
    case False
    with a Cons.IH show ?thesis by (simp add: insert_commute)
  qed
qed

lemma attributeSources_dom: "dom m \<subseteq> dom (attributeSources nrm path parent sources m)"
  by (auto simp: attributeSources_apply)

lemma attribute_dom: "dom m \<subseteq> dom (snd (attribute nrm g m))"
proof
  fix k assume "k \<in> dom m"
  with attribute_origin [of nrm g m k] show "k \<in> dom (snd (attribute nrm g m))" by auto
qed

lemma optimizeModule_dom: "dom m \<subseteq> dom (optimizeModule nrm md m)"
  by (cases "m (resource md)") (auto simp: optimizeModule_def Let_def)

lemma optimizeModules_dom: "dom m \<subseteq> dom (optimizeModules nrm mds m)"
proof (induction mds arbitrary: m)
  case Nil
  then show ?case by simp
next
  case (Cons md mds)
  have "dom m \<subseteq> dom (optimizeModule nrm md m)" by (rule optimizeModule_dom)
  also have "\<dots> \<subseteq> dom (optimizeModules nrm mds (optimizeModule nrm md m))" by (rule Cons.IH)
  finally show ?case by simp
qed

lemma moduleParsed_dom: "dom m \<subseteq> dom (moduleParsed nrm info m)"
  by (auto simp: moduleParsed_def Let_def)

lemma attribute_succeeds: "fst ` set g \<subseteq> dom m \<Longrightarrow> fst (attribute nrm g m) = None"
proof (induction g arbitrary: m)
  case Nil
  then show ?case by simp
next
  case (Cons a g)
  obtain path sources where a: "a = (path, sources)" by (cases a)
  with Cons.prems obtain parent where parent: "m path = Some parent" by auto
  let ?mid = "attributeSources nrm path parent sources m"
  have "fst ` set g \<subseteq> dom m" using Cons.prems by simp
  also have "\<dots> \<subseteq> dom ?mid" by (rule attributeSources_dom)
  finally have "fst (attribute nrm g ?mid) = None" by (rule Cons.IH)
  with a parent show ?case by simp
qed

lemma load_graphKeysPresent: "graphKeysPresent st \<Longrightarrow> graphKeysPresent (load nrm ident ms st)"
  unfolding graphKeysPresent_def
  by (cases ms) (auto simp: load_def Let_def mapSet_keys)

lemma writeBundle_graphKeysPresent:
  "graphKeysPresent st \<Longrightarrow> graphKeysPresent (fst (snd (writeBundle nrm cwd gen so args st w)))"
proof -
  assume g: "graphKeysPresent st"
  have graph: "sourcesGraph (fst (snd (writeBundle nrm cwd gen so args st w))) = sourcesGraph st"
    by (cases args)
       (auto simp: writeBundle_def generateReportFromAssets_def Let_def split: option.splits prod.splits)
  from writeBundle_inputs [of nrm cwd gen so args st w]
  have "dom (inputs st) \<subseteq> dom (inputs (fst (snd (writeBundle nrm cwd gen so args st w))))"
    using attribute_dom [of "inputs st" nrm "sourcesGraph st"] by auto
  with g show ?thesis unfolding graphKeysPresent_def graph by blast
qed

lemma step_graphKeysPresent:
  "graphKeysPresent st \<Longrightarrow> graphKeysPresent (fst (snd (step nrm cwd gen so e st w)))"
proof (cases e)
  case (Load ident ms)
  assume "graphKeysPresent st"
  with Load show ?thesis by (simp add: load_graphKeysPresent)
next
  case (AfterEmit outputPath assetNames)
  assume "graphKeysPresent st"
  with AfterEmit show ?thesis by (simp add: graphKeysPresent_def afterEmit_def Let_def)
next
  case (OptimizeModules mds)
  assume "graphKeysPresent st"
  with OptimizeModules optimizeModules_dom [of "inputs st" nrm mds] show ?thesis
    by (auto simp: graphKeysPresent_def)
next
  case (ModuleParsed info)
  assume "graphKeysPresent st"
  with ModuleParsed moduleParsed_dom [of "inputs st" nrm info] show ?thesis
    by (auto simp: graphKeysPresent_def)
next
  case (WriteBundle args)
  assume "graphKeysPresent st"
  with WriteBundle show ?thesis by (simp add: writeBundle_graphKeysPresent)
qed

lemma run_graphKeysPresent:
  "graphKeysPresent st \<Longrightarrow> graphKeysPresent (fst (run nrm cwd gen so es st w))"
proof (induction es arbitrary: st w)
  case Nil
  then show ?case by simp
next
  case (Cons e es)
  obtain err st1 w1 where s: "step nrm cwd gen so e st w = (err, st1, w1)"
    by (cases "step nrm cwd gen so e st w") auto
  with step_graphKeysPresent [OF Cons.prems, of nrm cwd gen so e w] have "graphKeysPresent st1" by simp
  from Cons.IH [OF this] s show ?case by simp
qed

lemma reachable_attribute_succeeds:
  "run nrm cwd gen so es initialState w = (st, w') \<Longrightarrow>
   fst (attribute nrm (sourcesGraph st) (inputs st)) = None"
proof -
  assume r: "run nrm cwd gen so es initialState w = (st, w')"
  have "graphKeysPresent initialState" by (simp add: graphKeysPresent_def initialState_def)
  from run_graphKeysPresent [OF this, of nrm cwd gen so es w] r have "graphKeysPresent st" by simp
  then show ?thesis unfolding graphKeysPresent_def by (rule attribute_succeeds)
qed


section \<open>The missing output\<close>

lemma writeBundle_no_assets:
  "assets st = None \<Longrightarrow>
   writeBundle nrm cwd gen shouldOpen None st w = (Some MissingOutputError, st, w)"
  by (simp add: writeBundle_def)

lemma run_without_assets:
  "assets st = None \<Longrightarrow> \<forall>e \<in> set es. \<not> recordsAssets e \<Longrightarrow>
   \<exists>st'. run nrm cwd gen shouldOpen es st w = (st', w) \<and> assets st' = None"
proof (induction es arbitrary: st)
  case Nil
  then show ?case by simp
next
  case (Cons e es)
  have rest: "\<forall>e \<in> set es. \<not> recordsAssets e" using Cons.prems(2) by simp
  have "\<exists>st1. step nrm cwd gen shouldOpen e st w = (fst (step nrm cwd gen shouldOpen e st w), st1, w)
          \<and> assets st1 = None"
  proof (cases e)
    case (Load ident mapSources)
    with Cons.prems(1) show ?thesis by (simp add: load_def Let_def split: option.splits)
  next
    case (AfterEmit outputPath assetNames)
    with Cons.prems(2) show ?thesis by simp
  next
    case (OptimizeModules mds)
    with Cons.prems(1) show ?thesis by simp
  next
    case (ModuleParsed info)
    with Cons.prems(1) show ?thesis by simp
  next
    case (WriteBundle args)
    with Cons.prems(2) have "args = None" by (cases args) auto
    with WriteBundle Cons.prems(1) show ?thesis by (simp add: writeBundle_no_assets)
  qed
  then obtain st1 where
    st1: "step nrm cwd gen shouldOpen e st w = (fst (step nrm cwd gen shouldOpen e st w), st1, w)"
    and none: "assets st1 = None" by blast
  from Cons.IH [OF none rest] obtain st' where
    "run nrm cwd gen shouldOpen es st1 w = (st', w)" and "assets st' = None" by blast
  moreover have "run nrm cwd gen shouldOpen (e # es) st w = run nrm cwd gen shouldOpen es st1 w"
    by (subst run.simps, subst st1) simp
  ultimately show ?case by simp
qed

text \<open>
  C2. As long as no hook has recorded an asset list, \<open>writeBundle\<close> called without
  arguments throws the error for the missing output: nothing has been written or opened
  before, and nothing is written or opened by the call.
\<close>

theorem writeBundle_missing_output:
  assumes "\<forall>e \<in> set es. \<not> recordsAssets e"
  shows "\<exists>st. run nrm cwd gen shouldOpen es initialState w = (st, w) \<and>
              writeBundle nrm cwd gen shouldOpen None st w = (Some MissingOutputError, st, w)"
proof -
  have "assets initialState = None" by (simp add: initialState_def)
  from run_without_assets [OF this assms] obtain st where
    "run nrm cwd gen shouldOpen es initialState w = (st, w)" and "assets st = None" by blast
  then show ?thesis by (auto simp: writeBundle_no_assets)
qed

theorem writeBundle_missing_output_witness:
  "\<exists>st. run (normalizePath ''/proj'') ''/proj'' (\<lambda>a m. Some ''report'') True
           [Load ''/proj/src/a.js'' (Some [''a.ts''])] initialState \<lparr>files = Map.empty, opened = []\<rparr>
         = (st, \<lparr>files = Map.empty, opened = []\<rparr>) \<and>
        writeBundle (normalizePath ''/proj'') ''/proj'' (\<lambda>a m. Some ''report'') True None st
          \<lparr>files = Map.empty, opened = []\<rparr>
         = (Some MissingOutputError, st, \<lparr>files = Map.empty, opened = []\<rparr>)"
proof -
  have "\<forall>e \<in> set [Load ''/proj/src/a.js'' (Some [''a.ts''])]. \<not> recordsAssets e" by simp
  from writeBundle_missing_output [OF this] show ?thesis .
qed



section \<open>Properties of the adapters\<close>

lemma endsWith_iff: "endsWith s e = (\<exists>stem. s = stem @ e)"
proof
  assume "endsWith s e"
  then have "drop (length s - length e) s = e" by (simp add: endsWith_def)
  moreover have "take (length s - length e) s @ drop (length s - length e) s = s"
    by (rule append_take_drop_id)
  ultimately have "s = take (length s - length e) s @ e" by simp
  then show "\<exists>stem. s = stem @ e" ..
next
  assume "\<exists>stem. s = stem @ e"
  then show "endsWith s e" by (auto simp: endsWith_def)
qed

text \<open>
  C10. The entry \<open>moduleParsed\<close> records for a module: its bytes are the byte length of
  the code (0 without code), its format follows the CommonJS flag when that is defined and
  the ending of the id otherwise, and its imports are the normalized imported ids.
\<close>

theorem moduleParsed_entry:
  "\<exists>e. moduleParsed nrm info m (nrm (id' info)) = Some e \<and>
     bytes e = (case code info of Some c \<Rightarrow> length c | None \<Rightarrow> 0) \<and>
     (isCommonJS info = Some True \<longrightarrow> format e = Cjs) \<and>
     (isCommonJS info = Some False \<longrightarrow> format e = Esm) \<and>
     (isCommonJS info = None \<longrightarrow>
        format e =
          (if \<exists>stem. id' info \<in> {stem @ ''.mts'', stem @ ''.mjs'', stem @ ''.mtsx'', stem @ ''.mjsx''}
           then Esm
           else if \<exists>stem. id' info \<in> {stem @ ''.cts'', stem @ ''.cjs'', stem @ ''.ctsx'', stem @ ''.cjsx''}
           then Cjs
           else Unknown)) \<and>
     imports e = map nrm (importedIds info)"
proof -
  have esm: "esmRegex f =
      (\<exists>stem. f \<in> {stem @ ''.mts'', stem @ ''.mjs'', stem @ ''.mtsx'', stem @ ''.mjsx''})" for f
    unfolding esmRegex_def endsWith_iff by blast
  have cjs: "cjsRegex f =
      (\<exists>stem. f \<in> {stem @ ''.cts'', stem @ ''.cjs'', stem @ ''.ctsx'', stem @ ''.cjsx''})" for f
    unfolding cjsRegex_def endsWith_iff by blast
  have guess: "(case guessFormat f of Some x \<Rightarrow> x | None \<Rightarrow> Unknown) =
      (if esmRegex f then Esm else if cjsRegex f then Cjs else Unknown)" for f
    by (simp add: guessFormat_def)
  show ?thesis
    unfolding moduleParsed_def Let_def esm [symmetric] cjs [symmetric]
    by (cases "isCommonJS info") (auto simp: formats_def guess split: option.splits)
qed

theorem moduleParsed_entry_witness:
  "\<exists>e. moduleParsed (normalizePath ''/proj'')
          \<lparr>id' = ''/proj/src/a.mjs'', code = Some ''export {}'', isCommonJS = None,
           importedIds = [''/proj/src/b.js'']\<rparr> Map.empty ''src/a.mjs'' = Some e \<and>
        bytes e = 9 \<and> format e = Esm \<and> imports e = [''src/b.js'']"
proof -
  let ?info = "\<lparr>id' = ''/proj/src/a.mjs'', code = Some ''export {}'', isCommonJS = None,
           importedIds = [''/proj/src/b.js'']\<rparr>"
  have key: "normalizePath ''/proj'' ''/proj/src/a.mjs'' = ''src/a.mjs''" by code_simp
  have dep: "normalizePath ''/proj'' ''/proj/src/b.js'' = ''src/b.js''" by code_simp
  have "''/proj/src/a.mjs'' = ''/proj/src/a'' @ ''.mjs''" by simp
  then have esm: "\<exists>stem. id' ?info \<in> {stem @ ''.mts'', stem @ ''.mjs'', stem @ ''.mtsx'', stem @ ''.mjsx''}"
    by (intro exI [of _ "''/proj/src/a''"]) simp
  have flag: "isCommonJS ?info = None" by simp
  from moduleParsed_entry [of "normalizePath ''/proj''" ?info Map.empty]
  obtain e where e: "moduleParsed (normalizePath ''/proj'') ?info Map.empty
        (normalizePath ''/proj'' (id' ?info)) = Some e"
    and b: "bytes e = (case code ?info of Some c \<Rightarrow> length c | None \<Rightarrow> 0)"
    and f: "isCommonJS ?info = None \<longrightarrow> format e =
          (if \<exists>stem. id' ?info \<in> {stem @ ''.mts'', stem @ ''.mjs'', stem @ ''.mtsx'', stem @ ''.mjsx''}
           then Esm
           else if \<exists>stem. id' ?info \<in> {stem @ ''.cts'', stem @ ''.cjs'', stem @ ''.ctsx'', stem @ ''.cjsx''}
           then Cjs
           else Unknown)"
    and i: "imports e = map (normalizePath ''/proj'') (importedIds ?info)"
    apply (elim exE conjE)
    apply (rule that)
       apply assumption+
    done
  from f flag esm have "format e = Esm" by (simp only: if_True)
  moreover from b have "bytes e = 9" by simp
  moreover from i have "imports e = [''src/b.js'']" by (simp add: dep)
  moreover from e have "moduleParsed (normalizePath ''/proj'') ?info Map.empty ''src/a.mjs'' = Some e"
    by (simp add: key)
  ultimately show ?thesis by blast
qed

text \<open>
  C8, as the code has it. \<open>load\<close> stores the default entry under the normalized id,
  whether or not the key was there. A Webpack module whose resource is a key has only its
  format and imports replaced; one whose resource and normalized resource are both missing
  gets a new entry with \<open>bytes = 0\<close> and no \<open>belongsTo\<close>. \<open>moduleParsed\<close> replaces
  bytes, format and imports of an existing entry and otherwise creates the entry with no
  \<open>belongsTo\<close>. No other key changes.
\<close>

theorem observations_merge_or_reset:
  "inputs (load nrm ident ms st) =
     (inputs st)(nrm ident \<mapsto> \<lparr>bytes = 0, format = Unknown, imports = [], belongsTo = None\<rparr>) \<and>
   (\<forall>e. m (resource md) = Some e \<longrightarrow>
      (\<exists>f i. optimizeModule nrm md m = m(resource md \<mapsto> e\<lparr>format := f, imports := i\<rparr>))) \<and>
   (m (resource md) = None \<and> m (nrm (resource md)) = None \<longrightarrow>
      (\<exists>f i. optimizeModule nrm md m =
         m(nrm (resource md) \<mapsto> \<lparr>bytes = 0, format = f, imports = i, belongsTo = None\<rparr>))) \<and>
   (\<forall>e. m (nrm (id' info)) = Some e \<longrightarrow>
      (\<exists>b f i. moduleParsed nrm info m =
         m(nrm (id' info) \<mapsto> e\<lparr>bytes := b, format := f, imports := i\<rparr>))) \<and>
   (m (nrm (id' info)) = None \<longrightarrow>
      (\<exists>b f i. moduleParsed nrm info m =
         m(nrm (id' info) \<mapsto> \<lparr>bytes = b, format = f, imports = i, belongsTo = None\<rparr>)))"
proof (intro conjI allI impI)
  show "inputs (load nrm ident ms st) =
     (inputs st)(nrm ident \<mapsto> \<lparr>bytes = 0, format = Unknown, imports = [], belongsTo = None\<rparr>)"
    by (cases ms) (simp_all add: load_def Let_def)
next
  fix e assume "m (resource md) = Some e"
  then show "\<exists>f i. optimizeModule nrm md m = m(resource md \<mapsto> e\<lparr>format := f, imports := i\<rparr>)"
    unfolding optimizeModule_def Let_def by (simp del: fun_upd_apply) blast
next
  assume "m (resource md) = None \<and> m (nrm (resource md)) = None"
  then show "\<exists>f i. optimizeModule nrm md m =
         m(nrm (resource md) \<mapsto> \<lparr>bytes = 0, format = f, imports = i, belongsTo = None\<rparr>)"
    unfolding optimizeModule_def Let_def by (simp del: fun_upd_apply) blast
next
  fix e assume "m (nrm (id' info)) = Some e"
  then show "\<exists>b f i. moduleParsed nrm info m =
         m(nrm (id' info) \<mapsto> e\<lparr>bytes := b, format := f, imports := i\<rparr>)"
    unfolding moduleParsed_def Let_def by (simp del: fun_upd_apply) blast
next
  assume "m (nrm (id' info)) = None"
  then show "\<exists>b f i. moduleParsed nrm info m =
         m(nrm (id' info) \<mapsto> \<lparr>bytes = b, format = f, imports = i, belongsTo = None\<rparr>)"
    unfolding moduleParsed_def Let_def by (simp del: fun_upd_apply) blast
qed

theorem observations_merge_or_reset_witness:
  "inputs (load (normalizePath ''/proj'') ''/proj/src/a.js'' None initialState) =
     (inputs initialState)(normalizePath ''/proj'' ''/proj/src/a.js'' \<mapsto>
        \<lparr>bytes = 0, format = Unknown, imports = [], belongsTo = None\<rparr>) \<and>
   (\<exists>f i. optimizeModule (normalizePath ''/proj'')
        \<lparr>dependencies = [Some ''/proj/src/b.js'', None], resource = ''src/a.js'', moduleType = ''javascript/esm''\<rparr>
        [''src/a.js'' \<mapsto> \<lparr>bytes = 7, format = Unknown, imports = [], belongsTo = Some ''dist/out.js''\<rparr>]
      = [''src/a.js'' \<mapsto> \<lparr>bytes = 7, format = f, imports = i, belongsTo = Some ''dist/out.js''\<rparr>]) \<and>
   (\<exists>b f i. moduleParsed (normalizePath ''/proj'')
        \<lparr>id' = ''/proj/src/a.js'', code = Some ''export {}'', isCommonJS = Some False, importedIds = []\<rparr>
        Map.empty
      = [''src/a.js'' \<mapsto> \<lparr>bytes = b, format = f, imports = i, belongsTo = None\<rparr>])"
proof -
  let ?md = "\<lparr>dependencies = [Some ''/proj/src/b.js'', None], resource = ''src/a.js'',
              moduleType = ''javascript/esm''\<rparr>"
  let ?info = "\<lparr>id' = ''/proj/src/a.js'', code = Some ''export {}'', isCommonJS = Some False,
                importedIds = []\<rparr>"
  let ?e = "\<lparr>bytes = 7, format = Unknown, imports = [], belongsTo = Some ''dist/out.js''\<rparr>"
  let ?m = "[''src/a.js'' \<mapsto> ?e]"
  have key: "normalizePath ''/proj'' ''/proj/src/a.js'' = ''src/a.js''" by code_simp
  note inst = observations_merge_or_reset [of "normalizePath ''/proj''" "''/proj/src/a.js''" None
      initialState ?m ?md]
  from inst have l: "inputs (load (normalizePath ''/proj'') ''/proj/src/a.js'' None initialState) =
     (inputs initialState)(normalizePath ''/proj'' ''/proj/src/a.js'' \<mapsto>
        \<lparr>bytes = 0, format = Unknown, imports = [], belongsTo = None\<rparr>)" by blast
  have "?m (resource ?md) = Some ?e" by simp
  with inst have "\<exists>f i. optimizeModule (normalizePath ''/proj'') ?md ?m =
      ?m(resource ?md \<mapsto> ?e\<lparr>format := f, imports := i\<rparr>)" by blast
  then have o: "\<exists>f i. optimizeModule (normalizePath ''/proj'') ?md ?m =
      [''src/a.js'' \<mapsto> \<lparr>bytes = 7, format = f, imports = i, belongsTo = Some ''dist/out.js''\<rparr>]"
    by simp
  have "Map.empty (normalizePath ''/proj'' (id' ?info)) = (None :: input option)" by simp
  with observations_merge_or_reset [of "normalizePath ''/proj''" _ _ _ Map.empty _ ?info]
  have "\<exists>b f i. moduleParsed (normalizePath ''/proj'') ?info Map.empty =
      Map.empty(normalizePath ''/proj'' (id' ?info) \<mapsto>
        \<lparr>bytes = b, format = f, imports = i, belongsTo = None\<rparr>)" by blast
  then have p: "\<exists>b f i. moduleParsed (normalizePath ''/proj'') ?info Map.empty =
      [''src/a.js'' \<mapsto> \<lparr>bytes = b, format = f, imports = i, belongsTo = None\<rparr>]"
    by (simp add: key)
  from l o p show ?thesis by blast
qed

text \<open>
  After \<open>moduleParsed\<close> has recorded bytes, format and imports of a module, a \<open>load\<close>
  of the same id puts the defaults back.
\<close>

theorem load_resets_counterexample:
  "inputs (fst (run (normalizePath ''/proj'') ''/proj'' (\<lambda>a m. Some ''report'') False
     [ModuleParsed \<lparr>id' = ''/proj/src/a.js'', code = Some ''export {}'', isCommonJS = Some False,
                    importedIds = [''/proj/src/b.js'']\<rparr>]
     initialState \<lparr>files = Map.empty, opened = []\<rparr>)) ''src/a.js''
   = Some \<lparr>bytes = 9, format = Esm, imports = [''src/b.js''], belongsTo = None\<rparr> \<and>
   inputs (fst (run (normalizePath ''/proj'') ''/proj'' (\<lambda>a m. Some ''report'') False
     [ModuleParsed \<lparr>id' = ''/proj/src/a.js'', code = Some ''export {}'', isCommonJS = Some False,
                    importedIds = [''/proj/src/b.js'']\<rparr>,
      Load ''/proj/src/a.js'' None]
     initialState \<lparr>files = Map.empty, opened = []\<rparr>)) ''src/a.js''
   = Some \<lparr>bytes = 0, format = Unknown, imports = [], belongsTo = None\<rparr>"
  by code_simp


section \<open>Properties of the distribution of sizes\<close>

lemma firstOccurrences_set: "set (firstOccurrences ks) = set ks"
  by (induction ks) auto

lemma firstOccurrences_distinct: "distinct (firstOccurrences ks)"
  by (induction ks) (auto simp: firstOccurrences_set)

lemma length_equalShares: "length (equalShares amount n) = n"
  by (simp add: equalShares_def)

lemma sum_equalShares: "0 < n \<Longrightarrow> sum_list (equalShares amount n) = amount"
proof -
  assume n: "0 < n"
  let ?q = "amount div n"
  let ?r = "amount mod n"
  from n have h: "(n - 1) * ?q + ?q = n * ?q"
    by (cases n) simp_all
  have "?q + ?r + (n - 1) * ?q = ((n - 1) * ?q + ?q) + ?r" by simp
  also have "\<dots> = n * ?q + ?r" by (simp only: h)
  also have "\<dots> = amount" by (rule mult_div_mod_eq)
  finally show ?thesis using n by (simp add: equalShares_def sum_list_replicate)
qed

lemma setBytes_other: "k \<notin> set ks \<Longrightarrow> setBytes ks bs m k = m k"
  by (induction ks bs m rule: setBytes.induct) (auto split: option.splits)

lemma setBytes_bytes:
  "distinct ks \<Longrightarrow> length bs = length ks \<Longrightarrow> \<forall>k \<in> set ks. m k \<noteq> None \<Longrightarrow>
   map (bytesOf (setBytes ks bs m)) ks = bs"
proof (induction ks arbitrary: bs m)
  case Nil
  then show ?case by simp
next
  case (Cons k ks)
  from Cons.prems(2) obtain b bs' where bs: "bs = b # bs'" by (cases bs) auto
  from Cons.prems(3) obtain e where e: "m k = Some e" by auto
  let ?m = "m(k \<mapsto> e\<lparr>bytes := b\<rparr>)"
  have step: "setBytes (k # ks) bs m = setBytes ks bs' ?m" using e bs by simp
  have fresh: "k \<notin> set ks" using Cons.prems(1) by simp
  then have "setBytes ks bs' ?m k = ?m k" by (rule setBytes_other)
  then have head: "bytesOf (setBytes ks bs' ?m) k = b" by (simp add: bytesOf_def)
  have d: "distinct ks" using Cons.prems(1) by simp
  have l: "length bs' = length ks" using Cons.prems(2) bs by simp
  have p: "\<forall>x \<in> set ks. ?m x \<noteq> None" using Cons.prems(3) by simp
  have "map (bytesOf (setBytes ks bs' ?m)) ks = bs'" using d l p by (rule Cons.IH)
  with head bs show ?case unfolding step by simp
qed

text \<open>
  C6. For a parent with virtual children, the distribution gives the first child the
  quotient plus the remainder and every other child the quotient, so the children's bytes
  add up to the parent's bytes; the parent's entry is unchanged.
\<close>

theorem distributeSizes_equal_split:
  assumes "m P = Some parent"
    and "virtualChildren nrm P sources m = c # cs"
  shows "sum_list (map (bytesOf (distributeSizes nrm P sources m)) (c # cs)) = bytes parent \<and>
         bytesOf (distributeSizes nrm P sources m) c =
           bytes parent div length (c # cs) + bytes parent mod length (c # cs) \<and>
         (\<forall>k \<in> set cs. bytesOf (distributeSizes nrm P sources m) k = bytes parent div length (c # cs)) \<and>
         distributeSizes nrm P sources m P = Some parent"
proof -
  let ?n = "length (c # cs)"
  let ?shares = "equalShares (bytes parent) ?n"
  let ?r = "distributeSizes nrm P sources m"
  have r: "?r = setBytes (c # cs) ?shares m"
    using assms by (simp add: distributeSizes_def)
  have d: "distinct (c # cs)"
    using firstOccurrences_distinct assms(2) unfolding virtualChildren_def by metis
  have mem: "\<forall>k \<in> set (c # cs). k \<noteq> P \<and> m k \<noteq> None"
  proof
    fix k assume "k \<in> set (c # cs)"
    then have "k \<in> set (virtualChildren nrm P sources m)" using assms(2) by simp
    then show "k \<noteq> P \<and> m k \<noteq> None"
      unfolding virtualChildren_def firstOccurrences_set by (auto split: option.splits)
  qed
  have shares: "map (bytesOf ?r) (c # cs) = ?shares"
    unfolding r using d mem by (intro setBytes_bytes) (simp_all add: length_equalShares)
  then have conserved: "sum_list (map (bytesOf ?r) (c # cs)) = bytes parent"
    by (simp add: sum_equalShares)
  have expl: "?shares = (bytes parent div ?n + bytes parent mod ?n) # replicate (?n - 1) (bytes parent div ?n)"
    by (simp add: equalShares_def)
  from shares expl have first: "bytesOf ?r c = bytes parent div ?n + bytes parent mod ?n"
    by simp
  from shares expl have "map (bytesOf ?r) cs = replicate (length cs) (bytes parent div ?n)"
    by simp
  then have others: "\<forall>k \<in> set cs. bytesOf ?r k = bytes parent div ?n"
    by (metis in_set_conv_nth length_map nth_map nth_replicate)
  have "P \<notin> set (c # cs)" using mem by blast
  then have "?r P = m P" unfolding r by (rule setBytes_other)
  with assms(1) conserved first others show ?thesis by simp
qed

theorem distributeSizes_equal_split_witness:
  "bytesOf (distributeSizes (normalizePath ''/proj'') ''a/b/bundle.js'' [''../x.ts'', ''../y.ts'']
      (snd (attribute (normalizePath ''/proj'') [(''a/b/bundle.js'', [''../x.ts'', ''../y.ts''])]
         [''a/b/bundle.js'' \<mapsto> \<lparr>bytes = 238, format = Esm, imports = [], belongsTo = None\<rparr>])))
      ''a/x.ts'' = 119 \<and>
   bytesOf (distributeSizes (normalizePath ''/proj'') ''a/b/bundle.js'' [''../x.ts'', ''../y.ts'']
      (snd (attribute (normalizePath ''/proj'') [(''a/b/bundle.js'', [''../x.ts'', ''../y.ts''])]
         [''a/b/bundle.js'' \<mapsto> \<lparr>bytes = 238, format = Esm, imports = [], belongsTo = None\<rparr>])))
      ''a/y.ts'' = 119"
proof -
  let ?m = "snd (attribute (normalizePath ''/proj'') [(''a/b/bundle.js'', [''../x.ts'', ''../y.ts''])]
         [''a/b/bundle.js'' \<mapsto> \<lparr>bytes = 238, format = Esm, imports = [], belongsTo = None\<rparr>])"
  have parent: "?m ''a/b/bundle.js'' =
      Some \<lparr>bytes = 238, format = Esm, imports = [], belongsTo = None\<rparr>"
    by code_simp
  have children: "virtualChildren (normalizePath ''/proj'') ''a/b/bundle.js'' [''../x.ts'', ''../y.ts''] ?m
      = ''a/x.ts'' # [''a/y.ts'']"
    by code_simp
  let ?d = "distributeSizes (normalizePath ''/proj'') ''a/b/bundle.js'' [''../x.ts'', ''../y.ts''] ?m"
  let ?parent = "\<lparr>bytes = 238, format = Esm, imports = [], belongsTo = None\<rparr>"
  note split = distributeSizes_equal_split [OF parent children]
  from split have "bytesOf ?d ''a/x.ts'' =
      bytes ?parent div length (''a/x.ts'' # [''a/y.ts'']) +
      bytes ?parent mod length (''a/x.ts'' # [''a/y.ts''])" by blast
  moreover have "bytes ?parent div length (''a/x.ts'' # [''a/y.ts'']) +
      bytes ?parent mod length (''a/x.ts'' # [''a/y.ts'']) = 119" by code_simp
  ultimately have x: "bytesOf ?d ''a/x.ts'' = 119" by (simp only:)
  from split have "\<forall>k \<in> set [''a/y.ts'']. bytesOf ?d k =
      bytes ?parent div length (''a/x.ts'' # [''a/y.ts''])" by blast
  then have "bytesOf ?d ''a/y.ts'' = bytes ?parent div length (''a/x.ts'' # [''a/y.ts''])"
    by (simp only: list.set ball_simps insert_iff)
  moreover have "bytes ?parent div length (''a/x.ts'' # [''a/y.ts'']) = 119" by code_simp
  ultimately have y: "bytesOf ?d ''a/y.ts'' = 119" by (simp only:)
  from x y show ?thesis by (rule conjI)
qed

end
